theory Spec2Isabelle
  imports Main "HOL-Library.Word"
begin

section \<open>AlturaTime backend (server.py): the upload store and its routes\<close>

text \<open>
  The development embeds the Flask views of \<^verbatim>\<open>server.py\<close>: \<^verbatim>\<open>allowed_filename\<close>,
  \<^verbatim>\<open>upload_schedule\<close>, \<^verbatim>\<open>get_ics\<close> and \<^verbatim>\<open>get_meta\<close>. The upload directory is an
  explicit store from path strings to file contents, passed in and returned. What the
  views take from outside (the value of \<^verbatim>\<open>uuid.uuid4().hex\<close>, whether a write to disk
  raises, \<^verbatim>\<open>werkzeug.utils.secure_filename\<close>) is a parameter of the model.

  Strings are lists of \<^typ>\<open>char\<close>, read as code points below 256; \<^verbatim>\<open>str.lower\<close> and
  \<^verbatim>\<open>str.strip\<close> are modelled on that range. The file system is a POSIX one (separator
  \<^verbatim>\<open>/\<close>, names compared exactly).
\<close>

subsection \<open>Data\<close>

type_synonym byte = "8 word"

datatype jvalue = JBool bool | JStr string

text \<open>A Python dict with string keys, in the order the source writes the keys.\<close>

type_synonym jdict = "(string \<times> jvalue) list"

text \<open>
  What a file of the upload directory holds: the bytes \<^verbatim>\<open>FileStorage.save\<close> wrote, the
  text \<^verbatim>\<open>json.dump\<close> wrote for a dict (the JSON encoding itself is not modelled;
  \<^verbatim>\<open>json.load\<close> returns the dict that was dumped), or what a \<^verbatim>\<open>json.dump\<close> that raised
  part-way left behind.
\<close>

datatype content = Blob "byte list" | JsonText jdict | JsonCut jdict

type_synonym store = "string \<rightharpoonup> content"

text \<open>
  The outcome of a view: \<^verbatim>\<open>jsonify(d), status\<close>; \<^verbatim>\<open>send_file(p, mimetype)\<close>;
  \<^verbatim>\<open>abort(code)\<close> or an HTTP exception of the framework; an exception that leaves the
  view uncaught (Flask answers with its generic 500 page); and \<^verbatim>\<open>json.load\<close> applied
  to a file that is not the complete output of \<^verbatim>\<open>json.dump\<close>, which the model does not
  evaluate.
\<close>

datatype response =
    Json jdict nat
  | SendFile content string
  | Abort nat
  | Unhandled string
  | JsonLoadOf content

record file_storage =
  filename :: string
  stream :: "byte list"

text \<open>
  The parts of \<^verbatim>\<open>flask.request\<close> the views read. \<open>content_length\<close> is the length
  of the whole request body, which Flask compares with \<^verbatim>\<open>MAX_CONTENT_LENGTH\<close>.
\<close>

record request =
  content_length :: nat
  files :: "(string \<times> file_storage) list"
  form :: "(string \<times> string) list"
  url_root :: string

text \<open>How a write to disk ends: it completes, raises before the file is created, or
  raises after \<open>n\<close> bytes went out.\<close>

datatype io_outcome = Completes | RaisesAtOpen string | RaisesAfter nat string

text \<open>What one run of \<^verbatim>\<open>upload_schedule\<close> draws from outside.\<close>

record env =
  uuid4_hex :: string
  save_outcome :: io_outcome
  dump_outcome :: io_outcome

subsection \<open>Configuration\<close>

definition MAX_BYTES :: nat where
  "MAX_BYTES = 2 * 1024 * 1024"

definition ALLOWED_EXT :: "string set" where
  "ALLOWED_EXT = {''.ics''}"

subsection \<open>Library functions the views call\<close>

text \<open>\<^verbatim>\<open>str.rfind(c)\<close>: the highest index of \<open>c\<close>, or \<open>-1\<close>.\<close>

fun rfind :: "string \<Rightarrow> char \<Rightarrow> int" where
  "rfind [] c = -1"
| "rfind (x # xs) c =
     (let r = rfind xs c in if 0 \<le> r then r + 1 else if x = c then 0 else -1)"

text \<open>
  The loop of \<^verbatim>\<open>genericpath._splitext\<close> that skips the leading dots of the last path
  component:
  \<^verbatim>\<open>
    while filenameIndex < dotIndex:
        if p[filenameIndex:filenameIndex+1] != extsep:
            return p[:dotIndex], p[dotIndex:]
        filenameIndex += 1
    return p, p[:0]
  \<close>
\<close>

function splitext_loop :: "string \<Rightarrow> int \<Rightarrow> int \<Rightarrow> string \<times> string" where
  "splitext_loop p filenameIndex dotIndex =
     (if filenameIndex < dotIndex then
        (if take 1 (drop (nat filenameIndex) p) \<noteq> ''.''
         then (take (nat dotIndex) p, drop (nat dotIndex) p)
         else splitext_loop p (filenameIndex + 1) dotIndex)
      else (p, []))"
  by pat_completeness auto
termination
  by (relation "measure (\<lambda>(p, i, d). nat (d - i))") auto

declare splitext_loop.simps [simp del]

text \<open>\<^verbatim>\<open>os.path.splitext\<close> (posixpath: \<open>sep = '/'\<close>, no \<open>altsep\<close>, \<open>extsep = '.'\<close>).\<close>

definition splitext :: "string \<Rightarrow> string \<times> string" where
  "splitext p =
     (let sepIndex = rfind p CHR ''/'';
          dotIndex = rfind p CHR ''.''
      in if dotIndex > sepIndex then splitext_loop p (sepIndex + 1) dotIndex
         else (p, []))"

text \<open>\<^verbatim>\<open>str.lower\<close> on code points below 256: \<open>A\<close>..\<open>Z\<close> and the Latin-1 capitals
  \<open>0xC0\<close>..\<open>0xDE\<close> (without the sign \<open>0xD7\<close>) move up by 32.\<close>

definition lower_char :: "char \<Rightarrow> char" where
  "lower_char c =
     (let n = (of_char c :: nat)
      in if (65 \<le> n \<and> n \<le> 90) \<or> (192 \<le> n \<and> n \<le> 222 \<and> n \<noteq> 215)
         then char_of (n + 32) else c)"

definition lower :: "string \<Rightarrow> string" where
  "lower s = map lower_char s"

text \<open>\<^verbatim>\<open>str.isspace\<close> on code points below 256, and \<^verbatim>\<open>str.strip()\<close>.\<close>

definition isspace :: "char \<Rightarrow> bool" where
  "isspace c =
     (let n = (of_char c :: nat)
      in (9 \<le> n \<and> n \<le> 13) \<or> (28 \<le> n \<and> n \<le> 32) \<or> n = 133 \<or> n = 160)"

definition strip :: "string \<Rightarrow> string" where
  "strip s = rev (dropWhile isspace (rev (dropWhile isspace s)))"

text \<open>\<^verbatim>\<open>s.rstrip("/")\<close>.\<close>

definition rstrip_slash :: "string \<Rightarrow> string" where
  "rstrip_slash s = rev (dropWhile (\<lambda>c. c = CHR ''/'') (rev s))"

text \<open>\<^verbatim>\<open>os.path.join(a, b)\<close> (posixpath, two arguments).\<close>

definition path_join :: "string \<Rightarrow> string \<Rightarrow> string" where
  "path_join a b =
     (if take 1 b = ''/'' then b
      else if a = [] \<or> last a = CHR ''/'' then a @ b
      else a @ ''/'' @ b)"

text \<open>\<^verbatim>\<open>uuid.uuid4().hex\<close> is a string of 32 lower-case hexadecimal digits.\<close>

definition is_uuid_hex :: "string \<Rightarrow> bool" where
  "is_uuid_hex s = (length s = 32 \<and> list_all (\<lambda>c. c \<in> set ''0123456789abcdef'') s)"

text \<open>
  \<^verbatim>\<open>FileStorage.save(path)\<close>: opens \<open>path\<close> for writing and copies the stream. The
  result is the store afterwards and the message of the exception, if one was raised.
\<close>

definition save :: "store \<Rightarrow> string \<Rightarrow> byte list \<Rightarrow> io_outcome \<Rightarrow> store \<times> string option" where
  "save fs path bs out =
     (case out of
        Completes \<Rightarrow> (fs(path \<mapsto> Blob bs), None)
      | RaisesAtOpen e \<Rightarrow> (fs, Some e)
      | RaisesAfter n e \<Rightarrow> (fs(path \<mapsto> Blob (take n bs)), Some e))"

text \<open>\<^verbatim>\<open>with open(meta_path, "w", encoding="utf-8") as f: json.dump(meta, f)\<close>.\<close>

definition dump_meta :: "store \<Rightarrow> string \<Rightarrow> jdict \<Rightarrow> io_outcome \<Rightarrow> store \<times> string option" where
  "dump_meta fs path meta out =
     (case out of
        Completes \<Rightarrow> (fs(path \<mapsto> JsonText meta), None)
      | RaisesAtOpen e \<Rightarrow> (fs, Some e)
      | RaisesAfter n e \<Rightarrow> (fs(path \<mapsto> JsonCut meta), Some e))"

subsection \<open>The views\<close>

definition allowed_filename :: "string \<Rightarrow> bool" where
  "allowed_filename fname = (lower (snd (splitext fname)) \<in> ALLOWED_EXT)"

text \<open>
  \<^verbatim>\<open>upload_schedule\<close>, for the upload directory \<open>upload_dir\<close> and the library function
  \<open>secure_filename\<close>. Reading \<^verbatim>\<open>request.files\<close> parses the body, and Flask raises
  413 there when the body is longer than \<^verbatim>\<open>MAX_CONTENT_LENGTH = MAX_BYTES\<close>.
\<close>

definition upload_schedule ::
  "string \<Rightarrow> (string \<Rightarrow> string) \<Rightarrow> env \<Rightarrow> store \<Rightarrow> request \<Rightarrow> store \<times> response" where
  "upload_schedule upload_dir secure_filename ev fs req =
     (if content_length req > MAX_BYTES then (fs, Abort 413)
      else case map_of (files req) ''file'' of
        None \<Rightarrow> (fs, Json [(''success'', JBool False), (''error'', JStr ''No file provided'')] 400)
      | Some uploaded \<Rightarrow>
         (let name = strip (case map_of (form req) ''name'' of
                              None \<Rightarrow> [] | Some v \<Rightarrow> (if v = [] then [] else v))
          in if filename uploaded = [] then
               (fs, Json [(''success'', JBool False), (''error'', JStr ''No filename'')] 400)
             else if \<not> allowed_filename (filename uploaded) then
               (fs, Json [(''success'', JBool False),
                          (''error'', JStr ''Only .ics files allowed'')] 400)
             else
               (let file_id = uuid4_hex ev;
                    safe_orig = secure_filename (filename uploaded);
                    file_name = file_id @ ''.ics'';
                    path = path_join upload_dir file_name
                in case save fs path (stream uploaded) (save_outcome ev) of
                     (fs1, Some e) \<Rightarrow>
                       (fs1, Json [(''success'', JBool False),
                                   (''error'', JStr (''Failed to save: '' @ e))] 500)
                   | (fs1, None) \<Rightarrow>
                       (let meta = [(''id'', JStr file_id),
                                    (''name'', JStr (if name = [] then ''Unnamed Student'' else name)),
                                    (''orig_name'', JStr safe_orig)];
                            meta_path = path_join upload_dir (file_id @ ''.json'')
                        in case dump_meta fs1 meta_path meta (dump_outcome ev) of
                             (fs2, Some e) \<Rightarrow> (fs2, Unhandled e)
                           | (fs2, None) \<Rightarrow>
                               (let base = rstrip_slash (url_root req);
                                    link = base @ ''/s/'' @ file_id
                                in (fs2, Json [(''success'', JBool True), (''id'', JStr file_id),
                                               (''name'', the (map_of meta ''name'')),
                                               (''link'', JStr link)] 200))))))"

definition get_ics :: "string \<Rightarrow> store \<Rightarrow> string \<Rightarrow> response" where
  "get_ics upload_dir fs file_id =
     (let p = path_join upload_dir (file_id @ ''.ics'')
      in case fs p of
           None \<Rightarrow> Abort 404
         | Some c \<Rightarrow> SendFile c ''text/calendar'')"

definition get_meta :: "string \<Rightarrow> store \<Rightarrow> string \<Rightarrow> response" where
  "get_meta upload_dir fs file_id =
     (let p = path_join upload_dir (file_id @ ''.json'')
      in case fs p of
           None \<Rightarrow> Abort 404
         | Some (JsonText d) \<Rightarrow> Json d 200
         | Some c \<Rightarrow> JsonLoadOf c)"


text \<open>
  The server handling a sequence of upload requests, one after the other: the store is
  threaded through, the responses are collected in order.
\<close>

fun run_uploads ::
  "string \<Rightarrow> (string \<Rightarrow> string) \<Rightarrow> store \<Rightarrow> (env \<times> request) list \<Rightarrow> store \<times> response list" where
  "run_uploads upload_dir secure_filename fs [] = (fs, [])"
| "run_uploads upload_dir secure_filename fs ((ev, req) # rest) =
     (case upload_schedule upload_dir secure_filename ev fs req of
        (fs1, r) \<Rightarrow>
          (case run_uploads upload_dir secure_filename fs1 rest of
             (fs2, rs) \<Rightarrow> (fs2, r # rs)))"


section \<open>Facts about the library functions\<close>

subsection \<open>\<open>rfind\<close> and \<open>splitext\<close>\<close>

lemma rfind_bounds: "-1 \<le> rfind p c \<and> rfind p c < int (length p)"
  by (induction p) (auto simp: Let_def)

lemma rfind_notin: "c \<notin> set p \<Longrightarrow> rfind p c = -1"
  by (induction p) (auto simp: Let_def)

lemma rfind_in: "c \<in> set p \<Longrightarrow> 0 \<le> rfind p c"
  by (induction p) (auto simp: Let_def)

lemma rfind_append_in: "c \<in> set t \<Longrightarrow> rfind (s @ t) c = int (length s) + rfind t c"
  by (induction s) (auto simp: Let_def dest: rfind_in)

lemma rfind_append_notin: "c \<notin> set t \<Longrightarrow> rfind (s @ t) c = rfind s c"
  by (induction s) (auto simp: Let_def rfind_notin)

lemma rfind_snoc_ext: "c \<notin> set t \<Longrightarrow> rfind (s @ c # t) c = int (length s)"
  using rfind_append_in [of c "c # t" s] by (simp add: Let_def rfind_notin)

lemma take1_drop_append: "k < length s \<Longrightarrow> take 1 (drop k (s @ t)) = [s ! k]"
  by (simp add: Cons_nth_drop_Suc [symmetric])

lemma splitext_loop_eq:
  "splitext_loop p i d =
     (if \<exists>k. i \<le> k \<and> k < d \<and> take 1 (drop (nat k) p) \<noteq> ''.''
      then (take (nat d) p, drop (nat d) p) else (p, []))"
proof (induction p i d rule: splitext_loop.induct)
  case (1 p i d)
  show ?case
  proof (cases "i < d")
    case False
    then show ?thesis by (subst splitext_loop.simps) auto
  next
    case True
    show ?thesis
    proof (cases "take 1 (drop (nat i) p) \<noteq> ''.''")
      case nd: True
      with True have "\<exists>k. i \<le> k \<and> k < d \<and> take 1 (drop (nat k) p) \<noteq> ''.''"
        by (intro exI [of _ i]) simp
      with True nd show ?thesis by (subst splitext_loop.simps) simp
    next
      case dot: False
      have "(\<exists>k. i \<le> k \<and> k < d \<and> take 1 (drop (nat k) p) \<noteq> ''.'') =
            (\<exists>k. i + 1 \<le> k \<and> k < d \<and> take 1 (drop (nat k) p) \<noteq> ''.'')"
      proof
        assume "\<exists>k. i \<le> k \<and> k < d \<and> take 1 (drop (nat k) p) \<noteq> ''.''"
        then obtain k where k: "i \<le> k" "k < d" "take 1 (drop (nat k) p) \<noteq> ''.''" by blast
        with dot have "k \<noteq> i" by auto
        with k show "\<exists>k. i + 1 \<le> k \<and> k < d \<and> take 1 (drop (nat k) p) \<noteq> ''.''"
          by (intro exI [of _ k]) simp
      next
        assume "\<exists>k. i + 1 \<le> k \<and> k < d \<and> take 1 (drop (nat k) p) \<noteq> ''.''"
        then obtain k where k: "i + 1 \<le> k" "k < d" "take 1 (drop (nat k) p) \<noteq> ''.''" by blast
        then show "\<exists>k. i \<le> k \<and> k < d \<and> take 1 (drop (nat k) p) \<noteq> ''.''"
          by (intro exI [of _ k]) simp
      qed
      with True dot "1.IH" show ?thesis by (subst splitext_loop.simps) simp
    qed
  qed
qed

lemma splitext_snd_cases:
  "snd (splitext p) = [] \<or>
   (0 \<le> rfind p CHR ''.'' \<and> snd (splitext p) = drop (nat (rfind p CHR ''.'')) p)"
  using rfind_bounds [of p "CHR ''/''"]
  by (auto simp: splitext_def Let_def splitext_loop_eq)

lemma rfind_dir:
  assumes "dir = [] \<or> last dir = CHR ''/''" "CHR ''/'' \<notin> set rest"
  shows "rfind (dir @ rest) CHR ''/'' = int (length dir) - 1"
proof (cases "dir = []")
  case True
  with assms show ?thesis by (simp add: rfind_notin)
next
  case False
  with assms have "dir = butlast dir @ [CHR ''/'']" by (metis append_butlast_last_id)
  then obtain b where b: "dir = b @ [CHR ''/'']" ..
  with assms show ?thesis by (simp add: rfind_snoc_ext)
qed

lemma splitext_dot_suffix:
  assumes dir: "dir = [] \<or> last dir = CHR ''/''"
    and base: "CHR ''/'' \<notin> set base"
    and t: "CHR ''.'' \<notin> set t" "CHR ''/'' \<notin> set t"
  shows "splitext (dir @ base @ CHR ''.'' # t) =
     (if \<exists>c \<in> set base. c \<noteq> CHR ''.''
      then (dir @ base, CHR ''.'' # t) else (dir @ base @ CHR ''.'' # t, []))"
proof -
  let ?p = "dir @ base @ CHR ''.'' # t"
  have d: "rfind ?p CHR ''.'' = int (length dir + length base)"
    using t rfind_snoc_ext [of "CHR ''.''" t "dir @ base"] by simp
  have sl: "rfind ?p CHR ''/'' = int (length dir) - 1"
    using dir base t by (intro rfind_dir) auto
  have nth: "take 1 (drop (length dir + j) ?p) = [base ! j]" if "j < length base" for j
    using that take1_drop_append [of j base "CHR ''.'' # t"] by simp
  have ex: "(\<exists>k. int (length dir) \<le> k \<and> k < int (length dir + length base)
                 \<and> take 1 (drop (nat k) ?p) \<noteq> ''.'')
          = (\<exists>c \<in> set base. c \<noteq> CHR ''.'')" (is "?L = ?R")
  proof
    assume ?L
    then obtain k where k: "int (length dir) \<le> k" "k < int (length dir + length base)"
        "take 1 (drop (nat k) ?p) \<noteq> ''.''" by blast
    define j where "j = nat k - length dir"
    from k have j: "j < length base" "nat k = length dir + j" by (auto simp: j_def)
    with k nth [of j] have "base ! j \<noteq> CHR ''.''" by simp
    with j show ?R by (meson nth_mem)
  next
    assume ?R
    then obtain j where j: "j < length base" "base ! j \<noteq> CHR ''.''"
      by (auto simp: in_set_conv_nth)
    have ne: "take 1 (drop (nat (int (length dir + j))) ?p) \<noteq> ''.''"
      unfolding nat_int nth [OF j(1)] using j(2) by simp
    have "int (length dir) \<le> int (length dir + j)" by simp
    moreover have "int (length dir + j) < int (length dir + length base)" using j(1) by simp
    ultimately show ?L using ne by blast
  qed
  have "splitext ?p = splitext_loop ?p (int (length dir)) (int (length dir + length base))"
    unfolding splitext_def Let_def d sl by simp
  also have "\<dots> = (if \<exists>c \<in> set base. c \<noteq> CHR ''.''
      then (take (nat (int (length dir + length base))) ?p,
            drop (nat (int (length dir + length base))) ?p) else (?p, []))"
    unfolding splitext_loop_eq ex ..
  also have "\<dots> = (if \<exists>c \<in> set base. c \<noteq> CHR ''.''
      then (dir @ base, CHR ''.'' # t) else (?p, []))"
    by simp
  finally show ?thesis .
qed



subsection \<open>Lower-casing keeps the separators\<close>

lemma of_char_lower_char:
  "(of_char (lower_char c) :: nat) =
     (if (65 \<le> (of_char c :: nat) \<and> (of_char c :: nat) \<le> 90) \<or>
         (192 \<le> (of_char c :: nat) \<and> (of_char c :: nat) \<le> 222 \<and> (of_char c :: nat) \<noteq> 215)
      then of_char c + 32 else of_char c)"
  by (auto simp: lower_char_def Let_def)

lemma lower_char_eq_iff: "lower_char c = x \<longleftrightarrow> (of_char (lower_char c) :: nat) = of_char x"
  by simp

lemma lower_char_fixed:
  assumes "lower_char c = x" "(of_char x :: nat) < 65"
  shows "c = x"
proof -
  from assms(1) have "(of_char (lower_char c) :: nat) = of_char x" by simp
  with assms(2) have "(of_char c :: nat) = of_char x"
    unfolding of_char_lower_char by (auto split: if_splits)
  then show ?thesis by (simp only: of_char_eq_iff)
qed

lemma lower_char_dot: "lower_char c = CHR ''.'' \<longleftrightarrow> c = CHR ''.''"
  using lower_char_fixed [of c "CHR ''.''"] by (auto simp: lower_char_def)

lemma lower_char_slash: "lower_char c = CHR ''/'' \<longleftrightarrow> c = CHR ''/''"
  using lower_char_fixed [of c "CHR ''/''"] by (auto simp: lower_char_def)

lemma lower_char_idem: "lower_char (lower_char c) = lower_char c"
  unfolding lower_char_eq_iff [of "lower_char c" "lower_char c"]
  by (subst of_char_lower_char) (auto simp: of_char_lower_char)

lemma lower_idem: "lower (lower s) = lower s"
  by (simp add: lower_def lower_char_idem)

subsection \<open>The extension test\<close>

lemma lower_ics_shape:
  assumes "lower e = ''.ics''"
  shows "\<exists>t. e = CHR ''.'' # t \<and> CHR ''.'' \<notin> set t \<and> CHR ''/'' \<notin> set t"
proof -
  from assms obtain a b c d where e: "e = [a, b, c, d]"
    and l: "lower_char a = CHR ''.''" "lower_char b = CHR ''i''" "lower_char c = CHR ''c''"
           "lower_char d = CHR ''s''"
    by (auto simp: lower_def)
  from l(1) have a: "a = CHR ''.''" by (simp add: lower_char_dot)
  have "x \<noteq> CHR ''.'' \<and> x \<noteq> CHR ''/''" if "lower_char x = y" "y \<noteq> CHR ''.''" "y \<noteq> CHR ''/''" for x y
    using that lower_char_dot [of x] lower_char_slash [of x] by auto
  from this [OF l(2)] this [OF l(3)] this [OF l(4)]
  have "b \<noteq> CHR ''.'' \<and> b \<noteq> CHR ''/''" "c \<noteq> CHR ''.'' \<and> c \<noteq> CHR ''/''" "d \<noteq> CHR ''.'' \<and> d \<noteq> CHR ''/''"
    by simp_all
  with e a show ?thesis by auto
qed

lemma allowed_filename_iff:
  assumes "dir = [] \<or> last dir = CHR ''/''" "CHR ''/'' \<notin> set base" "lower e = ''.ics''"
  shows "allowed_filename (dir @ base @ e) \<longleftrightarrow> (\<exists>c \<in> set base. c \<noteq> CHR ''.'')"
proof -
  from lower_ics_shape [OF assms(3)] obtain t where
    t: "e = CHR ''.'' # t" "CHR ''.'' \<notin> set t" "CHR ''/'' \<notin> set t" by blast
  have "splitext (dir @ base @ e) =
      (if \<exists>c \<in> set base. c \<noteq> CHR ''.'' then (dir @ base, e) else (dir @ base @ e, []))"
    unfolding t(1) by (rule splitext_dot_suffix [OF assms(1,2) t(2,3)])
  then show ?thesis
    using assms(3) by (simp add: allowed_filename_def ALLOWED_EXT_def lower_def)
qed

lemma allowed_filename_suffix:
  assumes "allowed_filename f"
  shows "\<exists>s e. f = s @ e \<and> lower e = ''.ics''"
proof -
  from assms have l: "lower (snd (splitext f)) = ''.ics''"
    by (simp add: allowed_filename_def ALLOWED_EXT_def)
  then have "snd (splitext f) \<noteq> []" by (auto simp: lower_def)
  with splitext_snd_cases [of f]
  have "snd (splitext f) = drop (nat (rfind f CHR ''.'')) f" by blast
  then have "f = take (nat (rfind f CHR ''.'')) f @ snd (splitext f)" by simp
  with l show ?thesis by blast
qed

lemma not_allowed_txt: "\<not> allowed_filename (s @ ''.txt'')"
proof -
  have d: "rfind (s @ ''.txt'') CHR ''.'' = int (length s)"
    using rfind_snoc_ext [of "CHR ''.''" "''txt''" s] by simp
  from splitext_snd_cases [of "s @ ''.txt''"]
  have "snd (splitext (s @ ''.txt'')) = [] \<or> snd (splitext (s @ ''.txt'')) = ''.txt''"
    unfolding d by auto
  then show ?thesis
    by (auto simp: allowed_filename_def ALLOWED_EXT_def lower_def lower_char_def)
qed

lemma rfind_lower:
  assumes "c = CHR ''.'' \<or> c = CHR ''/''"
  shows "rfind (lower p) c = rfind p c"
  using assms by (induction p) (auto simp: lower_def Let_def lower_char_dot lower_char_slash)

lemma take1_drop_lower:
  "take 1 (drop k (lower p)) \<noteq> ''.'' \<longleftrightarrow> take 1 (drop k p) \<noteq> ''.''"
proof -
  have "take 1 (drop k (lower p)) = lower (take 1 (drop k p))"
    by (simp add: lower_def take_map drop_map)
  moreover have "lower x = ''.'' \<longleftrightarrow> x = ''.''" for x
    by (cases x) (auto simp: lower_def lower_char_dot)
  ultimately show ?thesis by simp
qed

lemma splitext_lower: "splitext (lower p) = (lower (fst (splitext p)), lower (snd (splitext p)))"
proof -
  define c1 where "c1 = (rfind p CHR ''/'' < rfind p CHR ''.'')"
  define c2 where "c2 =
     (\<exists>k. rfind p CHR ''/'' + 1 \<le> k \<and> k < rfind p CHR ''.'' \<and> take 1 (drop (nat k) p) \<noteq> ''.'')"
  have A: "splitext p =
      (if c1 then if c2 then (take (nat (rfind p CHR ''.'')) p, drop (nat (rfind p CHR ''.'')) p)
                  else (p, [])
       else (p, []))"
    unfolding splitext_def Let_def splitext_loop_eq c1_def c2_def ..
  have r: "rfind (lower p) CHR ''/'' = rfind p CHR ''/''" "rfind (lower p) CHR ''.'' = rfind p CHR ''.''"
    by (simp_all add: rfind_lower)
  have B: "splitext (lower p) =
      (if c1 then if c2 then (take (nat (rfind p CHR ''.'')) (lower p),
                              drop (nat (rfind p CHR ''.'')) (lower p))
                  else (lower p, [])
       else (lower p, []))"
    unfolding splitext_def Let_def splitext_loop_eq r take1_drop_lower c1_def c2_def ..
  show ?thesis
    unfolding A B by (simp add: lower_def take_map drop_map)
qed

lemma allowed_filename_lower: "allowed_filename (lower f) = allowed_filename f"
  by (simp add: allowed_filename_def splitext_lower lower_idem)


subsection \<open>Paths of the upload directory\<close>

lemma path_join_ext:
  assumes "e \<noteq> []" "hd e \<noteq> CHR ''/''"
  shows "path_join d (x @ e) =
     (if take 1 x = ''/'' then x
      else if d = [] \<or> last d = CHR ''/'' then d @ x else d @ ''/'' @ x) @ e"
proof (cases x)
  case Nil
  with assms show ?thesis by (cases e) (auto simp: path_join_def)
next
  case (Cons a as)
  then show ?thesis by (auto simp: path_join_def)
qed

lemma ics_path_eq:
  "path_join d (x @ ''.ics'') =
     (if take 1 x = ''/'' then x
      else if d = [] \<or> last d = CHR ''/'' then d @ x else d @ ''/'' @ x) @ ''.ics''"
  by (rule path_join_ext) simp_all

lemma json_path_eq:
  "path_join d (x @ ''.json'') =
     (if take 1 x = ''/'' then x
      else if d = [] \<or> last d = CHR ''/'' then d @ x else d @ ''/'' @ x) @ ''.json''"
  by (rule path_join_ext) simp_all

lemma ics_json_distinct: "path_join d (x @ ''.ics'') \<noteq> path_join d (y @ ''.json'')"
proof
  assume "path_join d (x @ ''.ics'') = path_join d (y @ ''.json'')"
  then have "last (path_join d (x @ ''.ics'')) = last (path_join d (y @ ''.json''))" by simp
  then show False unfolding ics_path_eq json_path_eq by simp
qed

lemma json_eq_imp_ics_eq:
  assumes "path_join d (x @ ''.json'') = path_join d (y @ ''.json'')"
  shows "path_join d (x @ ''.ics'') = path_join d (y @ ''.ics'')"
  using assms unfolding ics_path_eq json_path_eq by simp

lemma ics_path_inj:
  assumes "take 1 x \<noteq> ''/''" "take 1 y \<noteq> ''/''"
    "path_join d (x @ ''.ics'') = path_join d (y @ ''.ics'')"
  shows "x = y"
  using assms unfolding ics_path_eq by (simp split: if_splits)

lemma json_path_inj:
  assumes "take 1 x \<noteq> ''/''" "take 1 y \<noteq> ''/''"
    "path_join d (x @ ''.json'') = path_join d (y @ ''.json'')"
  shows "x = y"
  using assms unfolding json_path_eq by (simp split: if_splits)

lemma uuid_no_slash: "is_uuid_hex s \<Longrightarrow> take 1 s \<noteq> ''/''"
  by (cases s) (auto simp: is_uuid_hex_def)

subsection \<open>Facts about one upload\<close>

lemma upload_success_shape:
  assumes "upload_schedule d sf ev fs req = (fs', Json js 200)"
  shows "\<exists>up. content_length req \<le> MAX_BYTES \<and> map_of (files req) ''file'' = Some up \<and>
     filename up \<noteq> [] \<and> allowed_filename (filename up) \<and>
     save_outcome ev = Completes \<and> dump_outcome ev = Completes \<and>
     fs' = fs(path_join d (uuid4_hex ev @ ''.ics'') \<mapsto> Blob (stream up),
              path_join d (uuid4_hex ev @ ''.json'') \<mapsto>
                JsonText [(''id'', JStr (uuid4_hex ev)),
                  (''name'', JStr (if strip (case map_of (form req) ''name'' of None \<Rightarrow> [] | Some v \<Rightarrow> v) = []
                     then ''Unnamed Student''
                     else strip (case map_of (form req) ''name'' of None \<Rightarrow> [] | Some v \<Rightarrow> v))),
                  (''orig_name'', JStr (sf (filename up)))]) \<and>
     js = [(''success'', JBool True), (''id'', JStr (uuid4_hex ev)),
           (''name'', JStr (if strip (case map_of (form req) ''name'' of None \<Rightarrow> [] | Some v \<Rightarrow> v) = []
                     then ''Unnamed Student''
                     else strip (case map_of (form req) ''name'' of None \<Rightarrow> [] | Some v \<Rightarrow> v))),
           (''link'', JStr (rstrip_slash (url_root req) @ ''/s/'' @ uuid4_hex ev))]"
  using assms
  by (auto simp: upload_schedule_def Let_def save_def dump_meta_def
      split: if_splits option.splits io_outcome.splits)

lemma upload_success:
  assumes "content_length req \<le> MAX_BYTES" "map_of (files req) ''file'' = Some up"
     "filename up \<noteq> []" "allowed_filename (filename up)"
     "save_outcome ev = Completes" "dump_outcome ev = Completes"
  shows "upload_schedule d sf ev fs req =
    (fs(path_join d (uuid4_hex ev @ ''.ics'') \<mapsto> Blob (stream up),
              path_join d (uuid4_hex ev @ ''.json'') \<mapsto>
                JsonText [(''id'', JStr (uuid4_hex ev)),
                  (''name'', JStr (if strip (case map_of (form req) ''name'' of None \<Rightarrow> [] | Some v \<Rightarrow> v) = []
                     then ''Unnamed Student''
                     else strip (case map_of (form req) ''name'' of None \<Rightarrow> [] | Some v \<Rightarrow> v))),
                  (''orig_name'', JStr (sf (filename up)))]),
     Json [(''success'', JBool True), (''id'', JStr (uuid4_hex ev)),
           (''name'', JStr (if strip (case map_of (form req) ''name'' of None \<Rightarrow> [] | Some v \<Rightarrow> v) = []
                     then ''Unnamed Student''
                     else strip (case map_of (form req) ''name'' of None \<Rightarrow> [] | Some v \<Rightarrow> v))),
           (''link'', JStr (rstrip_slash (url_root req) @ ''/s/'' @ uuid4_hex ev))] 200)"
  using assms
  by (auto simp: upload_schedule_def Let_def save_def dump_meta_def
      split: if_splits option.splits io_outcome.splits)

lemma upload_changes:
  assumes "upload_schedule d sf ev fs req = (fs', r)" "fs' p \<noteq> fs p"
  shows "p = path_join d (uuid4_hex ev @ ''.ics'') \<or> p = path_join d (uuid4_hex ev @ ''.json'')"
  using assms
  by (auto simp: upload_schedule_def Let_def save_def dump_meta_def
      split: if_splits option.splits io_outcome.splits)

lemma upload_keeps:
  assumes "upload_schedule d sf ev fs req = (fs', r)" "fs p \<noteq> None"
  shows "fs' p \<noteq> None"
  using assms
  by (auto simp: upload_schedule_def Let_def save_def dump_meta_def
      split: if_splits option.splits io_outcome.splits)

lemma upload_json_needs_ics:
  assumes "upload_schedule d sf ev fs req = (fs', r)"
    "fs' (path_join d (uuid4_hex ev @ ''.json'')) \<noteq> fs (path_join d (uuid4_hex ev @ ''.json''))"
  shows "fs' (path_join d (uuid4_hex ev @ ''.ics'')) \<noteq> None"
  using assms ics_json_distinct [of d "uuid4_hex ev" "uuid4_hex ev"]
  by (auto simp: upload_schedule_def Let_def save_def dump_meta_def
      split: if_splits option.splits io_outcome.splits)

section \<open>Properties of the upload store\<close>

subsection \<open>C10: a file name that is only the extension\<close>

lemma splitext_bare:
  assumes "lower e = ''.ics''"
  shows "splitext e = (e, [])"
proof -
  from lower_ics_shape [OF assms] obtain t where
    t: "e = CHR ''.'' # t" "CHR ''.'' \<notin> set t" "CHR ''/'' \<notin> set t" by blast
  from splitext_dot_suffix [of "[]" "[]" t, OF _ _ t(2,3)] show ?thesis
    unfolding t(1) by simp
qed

text \<open>
  C10. An upload whose file name is nothing but the allowed extension (\<^verbatim>\<open>.ics\<close> in any
  letter case) is rejected with the 400 answer "Only .ics files allowed", the store
  untouched: \<^verbatim>\<open>splitext\<close> takes the leading dot as part of the base name and returns an
  empty extension.
\<close>

theorem bare_extension_rejected:
  assumes "content_length req \<le> MAX_BYTES"
    and "map_of (files req) ''file'' = Some up"
    and "lower (filename up) = ''.ics''"
  shows "snd (splitext (filename up)) = [] \<and>
         upload_schedule d sf ev fs req =
           (fs, Json [(''success'', JBool False),
                      (''error'', JStr ''Only .ics files allowed'')] 400)"
proof -
  have e: "snd (splitext (filename up)) = []"
    using splitext_bare [OF assms(3)] by simp
  then have na: "\<not> allowed_filename (filename up)"
    by (simp add: allowed_filename_def ALLOWED_EXT_def lower_def)
  from assms(3) have ne: "filename up \<noteq> []" by (auto simp: lower_def)
  from assms(1,2) na ne e show ?thesis
    by (simp add: upload_schedule_def)
qed

theorem bare_extension_rejected_witness:
  "content_length \<lparr>content_length = 300,
       files = [(''file'', \<lparr>filename = ''.ICS'', stream = [66, 69, 71]\<rparr>)],
       form = [(''name'', ''Alice'')], url_root = ''http://h/''\<rparr> \<le> MAX_BYTES \<and>
   map_of (files \<lparr>content_length = 300,
       files = [(''file'', \<lparr>filename = ''.ICS'', stream = [66, 69, 71]\<rparr>)],
       form = [(''name'', ''Alice'')], url_root = ''http://h/''\<rparr>) ''file''
     = Some \<lparr>filename = ''.ICS'', stream = [66, 69, 71]\<rparr> \<and>
   lower (filename \<lparr>filename = ''.ICS'', stream = [66, 69, 71 :: byte]\<rparr>) = ''.ics'' \<and>
   snd (splitext (filename \<lparr>filename = ''.ICS'', stream = [66, 69, 71 :: byte]\<rparr>)) = [] \<and>
   upload_schedule ''/tmp/uploads'' id
       \<lparr>uuid4_hex = ''0123456789abcdef0123456789abcdef'',
        save_outcome = Completes, dump_outcome = Completes\<rparr>
       (map_of [])
       \<lparr>content_length = 300,
        files = [(''file'', \<lparr>filename = ''.ICS'', stream = [66, 69, 71]\<rparr>)],
        form = [(''name'', ''Alice'')], url_root = ''http://h/''\<rparr>
     = (map_of [], Json [(''success'', JBool False),
                  (''error'', JStr ''Only .ics files allowed'')] 400)"
proof -
  have h1: "content_length \<lparr>content_length = 300,
       files = [(''file'', \<lparr>filename = ''.ICS'', stream = [66, 69, 71 :: byte]\<rparr>)],
       form = [(''name'', ''Alice'')], url_root = ''http://h/''\<rparr> \<le> MAX_BYTES"
    by (simp add: MAX_BYTES_def)
  have h2: "map_of (files \<lparr>content_length = 300,
       files = [(''file'', \<lparr>filename = ''.ICS'', stream = [66, 69, 71 :: byte]\<rparr>)],
       form = [(''name'', ''Alice'')], url_root = ''http://h/''\<rparr>) ''file''
     = Some \<lparr>filename = ''.ICS'', stream = [66, 69, 71]\<rparr>"
    by simp
  have h3: "lower (filename \<lparr>filename = ''.ICS'', stream = [66, 69, 71 :: byte]\<rparr>) = ''.ics''"
    by code_simp
  from bare_extension_rejected [OF h1 h2 h3] h1 h2 h3 show ?thesis by blast
qed

subsection \<open>C6: the extension test of the upload\<close>

lemma dir_base_split:
  "\<exists>dir base. s = dir @ base \<and> (dir = [] \<or> last dir = CHR ''/'') \<and> CHR ''/'' \<notin> set base"
proof (induction s rule: rev_induct)
  case Nil
  then show ?case by simp
next
  case (snoc x xs)
  then obtain dir base where db: "xs = dir @ base" "dir = [] \<or> last dir = CHR ''/''"
      "CHR ''/'' \<notin> set base" by blast
  show ?case
  proof (cases "x = CHR ''/''")
    case True
    have "xs @ [x] = (xs @ [x]) @ [] \<and> (xs @ [x] = [] \<or> last (xs @ [x]) = CHR ''/'') \<and>
          CHR ''/'' \<notin> set []" using True by simp
    then show ?thesis by blast
  next
    case False
    with db have "xs @ [x] = dir @ (base @ [x]) \<and> (dir = [] \<or> last dir = CHR ''/'') \<and>
          CHR ''/'' \<notin> set (base @ [x])" by simp
    then show ?thesis by blast
  qed
qed

lemma allowed_filename_char:
  "allowed_filename f \<longleftrightarrow>
     (\<exists>dir base e. f = dir @ base @ e \<and> (dir = [] \<or> last dir = CHR ''/'') \<and>
        CHR ''/'' \<notin> set base \<and> (\<exists>c \<in> set base. c \<noteq> CHR ''.'') \<and> lower e = ''.ics'')"
proof
  assume a: "allowed_filename f"
  from allowed_filename_suffix [OF a] obtain s e where se: "f = s @ e" "lower e = ''.ics''"
    by blast
  from dir_base_split [of s] obtain dir base where db: "s = dir @ base"
      "dir = [] \<or> last dir = CHR ''/''" "CHR ''/'' \<notin> set base" by blast
  from a se db have "\<exists>c \<in> set base. c \<noteq> CHR ''.''"
    using allowed_filename_iff [OF db(2,3) se(2)] by simp
  with se db show "\<exists>dir base e. f = dir @ base @ e \<and> (dir = [] \<or> last dir = CHR ''/'') \<and>
        CHR ''/'' \<notin> set base \<and> (\<exists>c \<in> set base. c \<noteq> CHR ''.'') \<and> lower e = ''.ics''"
    by auto
next
  assume "\<exists>dir base e. f = dir @ base @ e \<and> (dir = [] \<or> last dir = CHR ''/'') \<and>
        CHR ''/'' \<notin> set base \<and> (\<exists>c \<in> set base. c \<noteq> CHR ''.'') \<and> lower e = ''.ics''"
  then obtain dir base e where h: "f = dir @ base @ e" "dir = [] \<or> last dir = CHR ''/''"
      "CHR ''/'' \<notin> set base" "\<exists>c \<in> set base. c \<noteq> CHR ''.''" "lower e = ''.ics''" by blast
  then show "allowed_filename f"
    using allowed_filename_iff [OF h(2,3,5)] by simp
qed

lemma allowed_filename_case:
  assumes "lower g = lower f"
  shows "allowed_filename g = allowed_filename f"
  using assms allowed_filename_lower [of g] allowed_filename_lower [of f] by simp

lemma upload_not_allowed:
  assumes "content_length req \<le> MAX_BYTES" "map_of (files req) ''file'' = Some up"
    "filename up \<noteq> []" "\<not> allowed_filename (filename up)"
  shows "upload_schedule d sf ev fs req =
           (fs, Json [(''success'', JBool False),
                      (''error'', JStr ''Only .ics files allowed'')] 400)"
  using assms by (simp add: upload_schedule_def)

text \<open>
  C6. For an upload within the size limit that carries a file part with a non-empty name:
  the name passes \<^verbatim>\<open>allowed_filename\<close> exactly when it ends, in any letter case, in
  \<^verbatim>\<open>.ics\<close> and the base name before that extension (what follows the last \<^verbatim>\<open>/\<close>) has
  a character other than a dot; the test does not depend on letter case; a name that
  fails it is answered 400 "Only .ics files allowed" with the store untouched, which is
  the case of every name ending in \<^verbatim>\<open>.txt\<close>; and a name that passes it leads, when both
  writes complete, to the success answer.
\<close>

theorem extension_check:
  assumes "content_length req \<le> MAX_BYTES"
    and "map_of (files req) ''file'' = Some up"
    and "filename up \<noteq> []"
  shows "(allowed_filename (filename up) \<longleftrightarrow>
            (\<exists>dir base e. filename up = dir @ base @ e \<and> (dir = [] \<or> last dir = CHR ''/'') \<and>
               CHR ''/'' \<notin> set base \<and> (\<exists>c \<in> set base. c \<noteq> CHR ''.'') \<and> lower e = ''.ics''))
       \<and> (\<forall>g. lower g = lower (filename up) \<longrightarrow>
               allowed_filename g = allowed_filename (filename up))
       \<and> (\<not> allowed_filename (filename up) \<longrightarrow>
             upload_schedule d sf ev fs req =
               (fs, Json [(''success'', JBool False),
                          (''error'', JStr ''Only .ics files allowed'')] 400))
       \<and> ((\<exists>s. filename up = s @ ''.txt'') \<longrightarrow>
             upload_schedule d sf ev fs req =
               (fs, Json [(''success'', JBool False),
                          (''error'', JStr ''Only .ics files allowed'')] 400))
       \<and> (allowed_filename (filename up) \<and> save_outcome ev = Completes \<and>
            dump_outcome ev = Completes \<longrightarrow>
             (\<exists>fs' js. upload_schedule d sf ev fs req = (fs', Json js 200) \<and>
                map_of js ''success'' = Some (JBool True)))"
proof (intro conjI allI impI)
  show "allowed_filename (filename up) \<longleftrightarrow>
            (\<exists>dir base e. filename up = dir @ base @ e \<and> (dir = [] \<or> last dir = CHR ''/'') \<and>
               CHR ''/'' \<notin> set base \<and> (\<exists>c \<in> set base. c \<noteq> CHR ''.'') \<and> lower e = ''.ics'')"
    by (rule allowed_filename_char)
next
  fix g assume "lower g = lower (filename up)"
  then show "allowed_filename g = allowed_filename (filename up)"
    by (rule allowed_filename_case)
next
  assume "\<not> allowed_filename (filename up)"
  with assms show "upload_schedule d sf ev fs req =
               (fs, Json [(''success'', JBool False),
                          (''error'', JStr ''Only .ics files allowed'')] 400)"
    by (rule upload_not_allowed)
next
  assume "\<exists>s. filename up = s @ ''.txt''"
  then have "\<not> allowed_filename (filename up)" using not_allowed_txt by auto
  with assms show "upload_schedule d sf ev fs req =
               (fs, Json [(''success'', JBool False),
                          (''error'', JStr ''Only .ics files allowed'')] 400)"
    by (rule upload_not_allowed)
next
  assume h: "allowed_filename (filename up) \<and> save_outcome ev = Completes \<and>
            dump_outcome ev = Completes"
  from upload_success [OF assms, of ev d sf fs] h
  show "\<exists>fs' js. upload_schedule d sf ev fs req = (fs', Json js 200) \<and>
                map_of js ''success'' = Some (JBool True)"
    by simp
qed

theorem extension_check_witness:
  "upload_schedule ''/tmp/uploads'' id
       \<lparr>uuid4_hex = ''0123456789abcdef0123456789abcdef'',
        save_outcome = Completes, dump_outcome = Completes\<rparr>
       (map_of [])
       \<lparr>content_length = 300,
        files = [(''file'', \<lparr>filename = ''notes.txt'', stream = [66, 69, 71]\<rparr>)],
        form = [(''name'', ''Alice'')], url_root = ''http://h/''\<rparr>
     = (map_of [], Json [(''success'', JBool False),
                  (''error'', JStr ''Only .ics files allowed'')] 400)
   \<and> allowed_filename ''Alice.ICS''
   \<and> (\<exists>fs' js. upload_schedule ''/tmp/uploads'' id
       \<lparr>uuid4_hex = ''0123456789abcdef0123456789abcdef'',
        save_outcome = Completes, dump_outcome = Completes\<rparr>
       (map_of [])
       \<lparr>content_length = 300,
        files = [(''file'', \<lparr>filename = ''Alice.ICS'', stream = [66, 69, 71]\<rparr>)],
        form = [(''name'', ''Alice'')], url_root = ''http://h/''\<rparr>
     = (fs', Json js 200) \<and> map_of js ''success'' = Some (JBool True))"
proof -
  let ?ev = "\<lparr>uuid4_hex = ''0123456789abcdef0123456789abcdef'',
        save_outcome = Completes, dump_outcome = Completes\<rparr>"
  let ?txt = "\<lparr>filename = ''notes.txt'', stream = [66, 69, 71 :: byte]\<rparr>"
  let ?ics = "\<lparr>filename = ''Alice.ICS'', stream = [66, 69, 71 :: byte]\<rparr>"
  let ?r1 = "\<lparr>content_length = 300, files = [(''file'', ?txt)],
        form = [(''name'', ''Alice'')], url_root = ''http://h/''\<rparr>"
  let ?r2 = "\<lparr>content_length = 300, files = [(''file'', ?ics)],
        form = [(''name'', ''Alice'')], url_root = ''http://h/''\<rparr>"
  have s1: "content_length ?r1 \<le> MAX_BYTES" "content_length ?r2 \<le> MAX_BYTES"
    by (simp_all add: MAX_BYTES_def)
  have f1: "map_of (files ?r1) ''file'' = Some ?txt" by simp
  have f2: "map_of (files ?r2) ''file'' = Some ?ics" by simp
  have n1: "filename ?txt \<noteq> []" and n2: "filename ?ics \<noteq> []" by simp_all
  have t: "\<exists>s. filename ?txt = s @ ''.txt''"
    by (rule exI [of _ "''notes''"]) simp
  have l: "lower ''.ICS'' = ''.ics''" by code_simp
  have "\<exists>dir base e. filename ?ics = dir @ base @ e \<and> (dir = [] \<or> last dir = CHR ''/'') \<and>
      CHR ''/'' \<notin> set base \<and> (\<exists>c \<in> set base. c \<noteq> CHR ''.'') \<and> lower e = ''.ics''"
    using l by (intro exI [of _ "[]"] exI [of _ "''Alice''"] exI [of _ "''.ICS''"]) simp
  with extension_check [OF s1(2) f2 n2, of "''/tmp/uploads''" id ?ev "map_of []"]
  have a: "allowed_filename (filename ?ics)" by blast
  from extension_check [OF s1(1) f1 n1, of "''/tmp/uploads''" id ?ev "map_of []"] t
  have r1: "upload_schedule ''/tmp/uploads'' id ?ev (map_of []) ?r1 =
      (map_of [], Json [(''success'', JBool False),
                  (''error'', JStr ''Only .ics files allowed'')] 400)" by blast
  from extension_check [OF s1(2) f2 n2, of "''/tmp/uploads''" id ?ev "map_of []"] a
  have r2: "\<exists>fs' js. upload_schedule ''/tmp/uploads'' id ?ev (map_of []) ?r2 = (fs', Json js 200) \<and>
      map_of js ''success'' = Some (JBool True)" by simp
  from a have a': "allowed_filename ''Alice.ICS''" by simp
  show ?thesis by (rule conjI [OF r1 conjI [OF a' r2]])
qed

subsection \<open>C1: what was uploaded is what is served\<close>

lemma get_ics_after_success:
  assumes "upload_schedule d sf ev fs req = (fs', Json js 200)"
    and "map_of (files req) ''file'' = Some up"
  shows "fs' (path_join d (uuid4_hex ev @ ''.ics'')) = Some (Blob (stream up))"
    and "get_ics d fs' (uuid4_hex ev) = SendFile (Blob (stream up)) ''text/calendar''"
    and "map_of js ''id'' = Some (JStr (uuid4_hex ev))"
proof -
  from upload_success_shape [OF assms(1)] assms(2)
  have fs': "fs' = fs(path_join d (uuid4_hex ev @ ''.ics'') \<mapsto> Blob (stream up),
        path_join d (uuid4_hex ev @ ''.json'') \<mapsto>
          JsonText [(''id'', JStr (uuid4_hex ev)),
            (''name'', JStr (if strip (case map_of (form req) ''name'' of None \<Rightarrow> [] | Some v \<Rightarrow> v) = []
               then ''Unnamed Student''
               else strip (case map_of (form req) ''name'' of None \<Rightarrow> [] | Some v \<Rightarrow> v))),
            (''orig_name'', JStr (sf (filename up)))])"
    and js: "map_of js ''id'' = Some (JStr (uuid4_hex ev))"
    by auto
  show p: "fs' (path_join d (uuid4_hex ev @ ''.ics'')) = Some (Blob (stream up))"
    unfolding fs' using ics_json_distinct [of d "uuid4_hex ev" "uuid4_hex ev"] by simp
  then show "get_ics d fs' (uuid4_hex ev) = SendFile (Blob (stream up)) ''text/calendar''"
    by (simp add: get_ics_def)
  show "map_of js ''id'' = Some (JStr (uuid4_hex ev))" by (rule js)
qed

lemma allowed_alice: "allowed_filename ''alice.ics''"
  by code_simp

text \<open>
  C1. For every valid upload (the body within the size limit, a file part present, its
  name non-empty and allowed): whenever \<^verbatim>\<open>upload_schedule\<close> answers success, \<^verbatim>\<open>get_ics\<close>
  on the id of that answer, in the store the upload left, sends exactly the uploaded
  bytes; and the upload does answer success, with an id, when both writes complete.
\<close>

theorem upload_roundtrip:
  assumes "content_length req \<le> MAX_BYTES"
    and "map_of (files req) ''file'' = Some up"
    and "filename up \<noteq> []"
    and "allowed_filename (filename up)"
  shows "(\<forall>fs' js i. upload_schedule d sf ev fs req = (fs', Json js 200) \<and>
             map_of js ''id'' = Some (JStr i) \<longrightarrow>
             get_ics d fs' i = SendFile (Blob (stream up)) ''text/calendar'')
       \<and> (save_outcome ev = Completes \<and> dump_outcome ev = Completes \<longrightarrow>
            (\<exists>fs' js i. upload_schedule d sf ev fs req = (fs', Json js 200) \<and>
               map_of js ''id'' = Some (JStr i)))"
proof (intro conjI allI impI)
  fix fs' js i
  assume h: "upload_schedule d sf ev fs req = (fs', Json js 200) \<and>
             map_of js ''id'' = Some (JStr i)"
  from get_ics_after_success(2,3) [OF conjunct1 [OF h] assms(2)] h
  show "get_ics d fs' i = SendFile (Blob (stream up)) ''text/calendar''" by simp
next
  assume h: "save_outcome ev = Completes \<and> dump_outcome ev = Completes"
  from upload_success [OF assms, of ev d sf fs] h
  show "\<exists>fs' js i. upload_schedule d sf ev fs req = (fs', Json js 200) \<and>
               map_of js ''id'' = Some (JStr i)" by simp
qed

theorem upload_roundtrip_witness:
  "\<exists>fs' js. upload_schedule ''/tmp/uploads'' id
       \<lparr>uuid4_hex = ''0123456789abcdef0123456789abcdef'',
        save_outcome = Completes, dump_outcome = Completes\<rparr>
       (map_of [])
       \<lparr>content_length = 300,
        files = [(''file'', \<lparr>filename = ''alice.ics'', stream = [66, 69, 71]\<rparr>)],
        form = [(''name'', ''Alice'')], url_root = ''http://h/''\<rparr>
     = (fs', Json js 200) \<and>
     map_of js ''id'' = Some (JStr ''0123456789abcdef0123456789abcdef'') \<and>
     get_ics ''/tmp/uploads'' fs' ''0123456789abcdef0123456789abcdef''
       = SendFile (Blob [66, 69, 71]) ''text/calendar''"
proof -
  let ?ev = "\<lparr>uuid4_hex = ''0123456789abcdef0123456789abcdef'',
        save_outcome = Completes, dump_outcome = Completes\<rparr>"
  let ?up = "\<lparr>filename = ''alice.ics'', stream = [66, 69, 71 :: byte]\<rparr>"
  let ?r = "\<lparr>content_length = 300, files = [(''file'', ?up)],
        form = [(''name'', ''Alice'')], url_root = ''http://h/''\<rparr>"
  have s: "content_length ?r \<le> MAX_BYTES" by (simp add: MAX_BYTES_def)
  have f: "map_of (files ?r) ''file'' = Some ?up" by simp
  have n: "filename ?up \<noteq> []" by simp
  have a: "allowed_filename (filename ?up)" using allowed_alice by simp
  note T = upload_roundtrip [OF s f n a, of "''/tmp/uploads''" id ?ev "map_of []"]
  from T have "\<exists>fs' js i. upload_schedule ''/tmp/uploads'' id ?ev (map_of []) ?r = (fs', Json js 200) \<and>
               map_of js ''id'' = Some (JStr i)" by simp
  then obtain fs' js i where
    u: "upload_schedule ''/tmp/uploads'' id ?ev (map_of []) ?r = (fs', Json js 200)"
    and i: "map_of js ''id'' = Some (JStr i)" by blast
  from get_ics_after_success(3) [OF u f] i have i': "i = ''0123456789abcdef0123456789abcdef''"
    by simp
  from T u i have g: "get_ics ''/tmp/uploads'' fs' i = SendFile (Blob (stream ?up)) ''text/calendar''"
    by blast
  from u i g show ?thesis unfolding i' by (intro exI [of _ fs'] exI [of _ js]) simp
qed

subsection \<open>C8: the payload's place depends on the id alone\<close>

text \<open>
  C8. Take two successful uploads of the same bytes, whatever their file names, display
  names, generated ids and stores. Each payload is stored at
  \<^verbatim>\<open>os.path.join(UPLOAD_DIR, id + ".ics")\<close>, the only paths an upload changes are the two
  formed from its id, and \<^verbatim>\<open>get_ics\<close> sends the same bytes for both ids. With the same id
  and the same store before, the two stores afterwards agree everywhere but in the
  metadata file: the file name has no influence on where or what the payload is.
\<close>

theorem location_from_id_only:
  assumes "map_of (files r1) ''file'' = Some u1"
    and "map_of (files r2) ''file'' = Some u2"
    and "stream u1 = stream u2"
    and "upload_schedule d sf ev1 fsa r1 = (fs1, Json js1 200)"
    and "upload_schedule d sf ev2 fsb r2 = (fs2, Json js2 200)"
  shows "get_ics d fs1 (uuid4_hex ev1) = SendFile (Blob (stream u1)) ''text/calendar''
       \<and> get_ics d fs2 (uuid4_hex ev2) = SendFile (Blob (stream u1)) ''text/calendar''
       \<and> fs1 (path_join d (uuid4_hex ev1 @ ''.ics'')) = Some (Blob (stream u1))
       \<and> fs2 (path_join d (uuid4_hex ev2 @ ''.ics'')) = Some (Blob (stream u1))
       \<and> (\<forall>p. fs1 p \<noteq> fsa p \<longrightarrow>
              p = path_join d (uuid4_hex ev1 @ ''.ics'') \<or> p = path_join d (uuid4_hex ev1 @ ''.json''))
       \<and> (ev1 = ev2 \<and> fsa = fsb \<longrightarrow>
            (\<forall>p. p \<noteq> path_join d (uuid4_hex ev1 @ ''.json'') \<longrightarrow> fs1 p = fs2 p))"
proof (intro conjI allI impI)
  show "get_ics d fs1 (uuid4_hex ev1) = SendFile (Blob (stream u1)) ''text/calendar''"
    by (rule get_ics_after_success(2) [OF assms(4) assms(1)])
  show "get_ics d fs2 (uuid4_hex ev2) = SendFile (Blob (stream u1)) ''text/calendar''"
    using get_ics_after_success(2) [OF assms(5) assms(2)] assms(3) by simp
  show "fs1 (path_join d (uuid4_hex ev1 @ ''.ics'')) = Some (Blob (stream u1))"
    by (rule get_ics_after_success(1) [OF assms(4) assms(1)])
  show "fs2 (path_join d (uuid4_hex ev2 @ ''.ics'')) = Some (Blob (stream u1))"
    using get_ics_after_success(1) [OF assms(5) assms(2)] assms(3) by simp
next
  fix p assume "fs1 p \<noteq> fsa p"
  with assms(4) show "p = path_join d (uuid4_hex ev1 @ ''.ics'') \<or>
      p = path_join d (uuid4_hex ev1 @ ''.json'')"
    by (rule upload_changes)
next
  fix p
  assume e: "ev1 = ev2 \<and> fsa = fsb" and p: "p \<noteq> path_join d (uuid4_hex ev1 @ ''.json'')"
  show "fs1 p = fs2 p"
  proof (cases "p = path_join d (uuid4_hex ev1 @ ''.ics'')")
    case True
    with get_ics_after_success(1) [OF assms(4) assms(1)]
      get_ics_after_success(1) [OF assms(5) assms(2)] assms(3) e
    show ?thesis by simp
  next
    case False
    with p upload_changes [OF assms(4), of p] have "fs1 p = fsa p" by blast
    moreover from False p e upload_changes [OF assms(5), of p] have "fs2 p = fsb p" by auto
    ultimately show ?thesis using e by simp
  qed
qed

theorem location_from_id_only_witness:
  "\<exists>fs1 js1 fs2 js2.
     upload_schedule ''/tmp/uploads'' id
       \<lparr>uuid4_hex = ''0123456789abcdef0123456789abcdef'',
        save_outcome = Completes, dump_outcome = Completes\<rparr>
       (map_of [])
       \<lparr>content_length = 300,
        files = [(''file'', \<lparr>filename = ''alice.ics'', stream = [66, 69, 71]\<rparr>)],
        form = [(''name'', ''Alice'')], url_root = ''http://h/''\<rparr>
     = (fs1, Json js1 200) \<and>
     upload_schedule ''/tmp/uploads'' id
       \<lparr>uuid4_hex = ''0123456789abcdef0123456789abcdef'',
        save_outcome = Completes, dump_outcome = Completes\<rparr>
       (map_of [])
       \<lparr>content_length = 300,
        files = [(''file'', \<lparr>filename = ''../../etc/x.ICS'', stream = [66, 69, 71]\<rparr>)],
        form = [(''name'', ''Bob'')], url_root = ''http://h/''\<rparr>
     = (fs2, Json js2 200) \<and>
     get_ics ''/tmp/uploads'' fs1 ''0123456789abcdef0123456789abcdef''
       = SendFile (Blob [66, 69, 71]) ''text/calendar'' \<and>
     get_ics ''/tmp/uploads'' fs2 ''0123456789abcdef0123456789abcdef''
       = SendFile (Blob [66, 69, 71]) ''text/calendar'' \<and>
     fs1 ''/tmp/uploads/0123456789abcdef0123456789abcdef.ics'' = Some (Blob [66, 69, 71]) \<and>
     fs2 ''/tmp/uploads/0123456789abcdef0123456789abcdef.ics'' = Some (Blob [66, 69, 71]) \<and>
     fs1 ''/tmp/uploads/../../etc/x.ICS'' = fs2 ''/tmp/uploads/../../etc/x.ICS''"
proof -
  let ?ev = "\<lparr>uuid4_hex = ''0123456789abcdef0123456789abcdef'',
        save_outcome = Completes, dump_outcome = Completes\<rparr>"
  let ?u1 = "\<lparr>filename = ''alice.ics'', stream = [66, 69, 71 :: byte]\<rparr>"
  let ?u2 = "\<lparr>filename = ''../../etc/x.ICS'', stream = [66, 69, 71 :: byte]\<rparr>"
  let ?r1 = "\<lparr>content_length = 300, files = [(''file'', ?u1)],
        form = [(''name'', ''Alice'')], url_root = ''http://h/''\<rparr>"
  let ?r2 = "\<lparr>content_length = 300, files = [(''file'', ?u2)],
        form = [(''name'', ''Bob'')], url_root = ''http://h/''\<rparr>"
  have f1: "map_of (files ?r1) ''file'' = Some ?u1" and f2: "map_of (files ?r2) ''file'' = Some ?u2"
    by simp_all
  have st: "stream ?u1 = stream ?u2" by simp
  have a2: "allowed_filename ''../../etc/x.ICS''" by code_simp
  have "\<exists>fs1 js1. upload_schedule ''/tmp/uploads'' id ?ev (map_of []) ?r1 = (fs1, Json js1 200)"
    using upload_success [of ?r1 ?u1 ?ev "''/tmp/uploads''" id "map_of []"] allowed_alice
    by (simp add: MAX_BYTES_def)
  then obtain fs1 js1 where
    r1: "upload_schedule ''/tmp/uploads'' id ?ev (map_of []) ?r1 = (fs1, Json js1 200)" by blast
  have "\<exists>fs2 js2. upload_schedule ''/tmp/uploads'' id ?ev (map_of []) ?r2 = (fs2, Json js2 200)"
    using upload_success [of ?r2 ?u2 ?ev "''/tmp/uploads''" id "map_of []"] a2
    by (simp add: MAX_BYTES_def)
  then obtain fs2 js2 where
    r2: "upload_schedule ''/tmp/uploads'' id ?ev (map_of []) ?r2 = (fs2, Json js2 200)" by blast
  note T = location_from_id_only [OF f1 f2 st r1 r2]
  have pj: "path_join ''/tmp/uploads'' (uuid4_hex ?ev @ ''.ics'')
      = ''/tmp/uploads/0123456789abcdef0123456789abcdef.ics''"
    by (simp add: path_join_def)
  have pj': "''/tmp/uploads/../../etc/x.ICS'' \<noteq> path_join ''/tmp/uploads'' (uuid4_hex ?ev @ ''.json'')"
    by (simp add: path_join_def)
  from T have g1: "get_ics ''/tmp/uploads'' fs1 ''0123456789abcdef0123456789abcdef''
       = SendFile (Blob [66, 69, 71]) ''text/calendar''"
    and g2: "get_ics ''/tmp/uploads'' fs2 ''0123456789abcdef0123456789abcdef''
       = SendFile (Blob [66, 69, 71]) ''text/calendar''"
    and l1: "fs1 ''/tmp/uploads/0123456789abcdef0123456789abcdef.ics'' = Some (Blob [66, 69, 71])"
    and l2: "fs2 ''/tmp/uploads/0123456789abcdef0123456789abcdef.ics'' = Some (Blob [66, 69, 71])"
    unfolding pj by simp_all
  from T pj' have e: "fs1 ''/tmp/uploads/../../etc/x.ICS'' = fs2 ''/tmp/uploads/../../etc/x.ICS''"
    by blast
  from r1 r2 g1 g2 l1 l2 e show ?thesis by blast
qed

subsection \<open>C7: the recorded display name\<close>

lemma dropWhile_rev_split:
  "t = rev (dropWhile P (rev t)) @ rev (takeWhile P (rev t))"
proof -
  have "rev (takeWhile P (rev t) @ dropWhile P (rev t)) = t"
    by (simp only: takeWhile_dropWhile_id rev_rev_ident)
  then show ?thesis by (simp only: rev_append)
qed

lemma strip_decomp:
  "\<exists>l r. s = l @ strip s @ r \<and> list_all isspace l \<and> list_all isspace r"
proof -
  define l where "l = takeWhile isspace s"
  define t where "t = dropWhile isspace s"
  define r where "r = rev (takeWhile isspace (rev t))"
  have 1: "s = l @ t" unfolding l_def t_def by simp
  have 2: "t = strip s @ r"
    unfolding strip_def r_def t_def by (rule dropWhile_rev_split)
  have 3: "list_all isspace l"
    unfolding l_def by (auto simp: list_all_iff dest: set_takeWhileD)
  have 4: "list_all isspace r"
    unfolding r_def by (auto simp: list_all_iff dest: set_takeWhileD)
  have "l @ t = l @ strip s @ r" using 2 by (rule arg_cong)
  with 1 have "s = l @ strip s @ r" by (rule trans)
  with 3 4 show ?thesis by blast
qed

lemma strip_empty_iff: "strip s = [] \<longleftrightarrow> list_all isspace s"
proof
  assume e: "strip s = []"
  from strip_decomp [of s] obtain l r where
    lr: "s = l @ strip s @ r" "list_all isspace l" "list_all isspace r" by blast
  from lr(1) have "s = l @ r" unfolding e by simp
  then have "list_all isspace s = list_all isspace (l @ r)" by (rule arg_cong)
  with lr(2,3) show "list_all isspace s" by simp
next
  assume "list_all isspace s"
  then have d: "dropWhile isspace s = []" by (induction s) simp_all
  show "strip s = []" unfolding strip_def d by simp
qed

lemma strip_ends:
  assumes "strip s \<noteq> []"
  shows "\<not> isspace (hd (strip s)) \<and> \<not> isspace (last (strip s))"
proof -
  let ?t = "dropWhile isspace s"
  from assms have ne: "dropWhile isspace (rev ?t) \<noteq> []" by (simp add: strip_def)
  then have l: "\<not> isspace (hd (dropWhile isspace (rev ?t)))" by (rule hd_dropWhile)
  from ne have "last (strip s) = hd (dropWhile isspace (rev ?t))"
    by (simp add: strip_def last_rev)
  with l have L: "\<not> isspace (last (strip s))" by simp
  have t: "?t \<noteq> []"
  proof
    assume "?t = []"
    then have "dropWhile isspace (rev ?t) = []" by (simp only: rev.simps dropWhile.simps)
    with ne show False ..
  qed
  then have h: "\<not> isspace (hd ?t)" by (rule hd_dropWhile)
  have "?t = strip s @ rev (takeWhile isspace (rev ?t))"
    unfolding strip_def by (rule dropWhile_rev_split)
  then have "hd ?t = hd (strip s @ rev (takeWhile isspace (rev ?t)))" by (rule arg_cong)
  also have "\<dots> = hd (strip s)" using assms by (rule hd_append2)
  finally have "hd ?t = hd (strip s)" .
  with h L show ?thesis by simp
qed

text \<open>
  C7. After a successful upload \<^verbatim>\<open>get_meta\<close> on its id returns the record, whose
  \<^verbatim>\<open>name\<close> is the placeholder \<^verbatim>\<open>Unnamed Student\<close> when the supplied name (the empty
  string when the field is absent) is empty or all whitespace, and the supplied name
  stripped otherwise. Stripping removes whitespace at both ends only: the supplied name is
  the stripped one between two runs of whitespace, and a non-empty stripped name neither
  starts nor ends with whitespace.
\<close>

theorem display_name_recorded:
  assumes "upload_schedule d sf ev fs req = (fs', Json js 200)"
    and "supplied = (case map_of (form req) ''name'' of None \<Rightarrow> [] | Some v \<Rightarrow> v)"
  shows "(\<exists>m. get_meta d fs' (uuid4_hex ev) = Json m 200 \<and>
            map_of m ''name'' =
              Some (JStr (if list_all isspace supplied then ''Unnamed Student''
                          else strip supplied)))
       \<and> (\<exists>l r. supplied = l @ strip supplied @ r \<and> list_all isspace l \<and> list_all isspace r)
       \<and> (\<not> list_all isspace supplied \<longrightarrow>
             \<not> isspace (hd (strip supplied)) \<and> \<not> isspace (last (strip supplied)))"
proof -
  from upload_success_shape [OF assms(1)] obtain up :: file_storage where
    fs': "fs' = fs(path_join d (uuid4_hex ev @ ''.ics'') \<mapsto> Blob (stream up),
        path_join d (uuid4_hex ev @ ''.json'') \<mapsto>
          JsonText [(''id'', JStr (uuid4_hex ev)),
            (''name'', JStr (if strip supplied = [] then ''Unnamed Student'' else strip supplied)),
            (''orig_name'', JStr (sf (filename up)))])"
    unfolding assms(2) by auto
  have "fs' (path_join d (uuid4_hex ev @ ''.json'')) = Some (JsonText [(''id'', JStr (uuid4_hex ev)),
            (''name'', JStr (if strip supplied = [] then ''Unnamed Student'' else strip supplied)),
            (''orig_name'', JStr (sf (filename up)))])"
    unfolding fs' by simp
  then have "get_meta d fs' (uuid4_hex ev) = Json [(''id'', JStr (uuid4_hex ev)),
            (''name'', JStr (if strip supplied = [] then ''Unnamed Student'' else strip supplied)),
            (''orig_name'', JStr (sf (filename up)))] 200"
    by (simp add: get_meta_def)
  then have A: "\<exists>m. get_meta d fs' (uuid4_hex ev) = Json m 200 \<and>
            map_of m ''name'' =
              Some (JStr (if list_all isspace supplied then ''Unnamed Student''
                          else strip supplied))"
    unfolding strip_empty_iff by simp
  have B: "\<exists>l r. supplied = l @ strip supplied @ r \<and> list_all isspace l \<and> list_all isspace r"
    by (rule strip_decomp)
  have C: "\<not> list_all isspace supplied \<longrightarrow>
             \<not> isspace (hd (strip supplied)) \<and> \<not> isspace (last (strip supplied))"
  proof
    assume "\<not> list_all isspace supplied"
    then have "strip supplied \<noteq> []" by (simp add: strip_empty_iff)
    then show "\<not> isspace (hd (strip supplied)) \<and> \<not> isspace (last (strip supplied))"
      by (rule strip_ends)
  qed
  show ?thesis by (rule conjI [OF A conjI [OF B C]])
qed

theorem display_name_recorded_witness:
  "\<exists>fs' js m. upload_schedule ''/tmp/uploads'' id
       \<lparr>uuid4_hex = ''0123456789abcdef0123456789abcdef'',
        save_outcome = Completes, dump_outcome = Completes\<rparr>
       (map_of [])
       \<lparr>content_length = 300,
        files = [(''file'', \<lparr>filename = ''alice.ics'', stream = [66, 69, 71]\<rparr>)],
        form = [(''name'', ''  Alice ''), (''name'', ''Bob'')], url_root = ''http://h/''\<rparr>
     = (fs', Json js 200) \<and>
     \<not> list_all isspace ''  Alice '' \<and>
     get_meta ''/tmp/uploads'' fs' ''0123456789abcdef0123456789abcdef'' = Json m 200 \<and>
     map_of m ''name'' = Some (JStr ''Alice'') \<and>
     \<not> isspace (hd (strip ''  Alice '')) \<and> \<not> isspace (last (strip ''  Alice ''))"
proof -
  let ?ev = "\<lparr>uuid4_hex = ''0123456789abcdef0123456789abcdef'',
        save_outcome = Completes, dump_outcome = Completes\<rparr>"
  let ?up = "\<lparr>filename = ''alice.ics'', stream = [66, 69, 71 :: byte]\<rparr>"
  let ?r = "\<lparr>content_length = 300, files = [(''file'', ?up)],
        form = [(''name'', ''  Alice ''), (''name'', ''Bob'')], url_root = ''http://h/''\<rparr>"
  have "\<exists>fs' js. upload_schedule ''/tmp/uploads'' id ?ev (map_of []) ?r = (fs', Json js 200)"
    using upload_success [of ?r ?up ?ev "''/tmp/uploads''" id "map_of []"] allowed_alice
    by (simp add: MAX_BYTES_def)
  then obtain fs' js where
    u: "upload_schedule ''/tmp/uploads'' id ?ev (map_of []) ?r = (fs', Json js 200)" by blast
  have su: "''  Alice '' = (case map_of (form ?r) ''name'' of None \<Rightarrow> [] | Some v \<Rightarrow> v)"
    by simp
  have sp: "\<not> list_all isspace ''  Alice ''" by code_simp
  have st: "strip ''  Alice '' = ''Alice''" by code_simp
  note T = display_name_recorded [OF u su]
  from T sp obtain m where
    m: "get_meta ''/tmp/uploads'' fs' ''0123456789abcdef0123456789abcdef'' = Json m 200"
    "map_of m ''name'' = Some (JStr (strip ''  Alice ''))" by auto
  from T sp have e: "\<not> isspace (hd (strip ''  Alice '')) \<and> \<not> isspace (last (strip ''  Alice ''))"
    by blast
  from m(2) have m2: "map_of m ''name'' = Some (JStr ''Alice'')" unfolding st .
  from u sp m(1) m2 e show ?thesis by blast
qed

subsection \<open>C9: a write that fails\<close>

text \<open>
  C9, at two inputs. When the metadata write raises (here: the disk is full when
  \<^verbatim>\<open>open(meta_path, "w")\<close> runs), nothing catches the exception: it leaves the view, the
  payload file stays behind, and the caller gets no id. When the payload write raises,
  the \<^verbatim>\<open>try\<close>/\<^verbatim>\<open>except\<close> around \<^verbatim>\<open>uploaded.save\<close> answers 500 with "Failed to save: ...".
\<close>

theorem metadata_write_failure_unhandled:
  "upload_schedule ''/tmp/uploads'' id
       \<lparr>uuid4_hex = ''0123456789abcdef0123456789abcdef'',
        save_outcome = Completes,
        dump_outcome = RaisesAtOpen ''[Errno 28] No space left on device''\<rparr>
       (map_of [])
       \<lparr>content_length = 300,
        files = [(''file'', \<lparr>filename = ''alice.ics'', stream = [66, 69, 71]\<rparr>)],
        form = [(''name'', ''Alice'')], url_root = ''http://h/''\<rparr>
     = ((map_of [])(''/tmp/uploads/0123456789abcdef0123456789abcdef.ics'' \<mapsto> Blob [66, 69, 71]),
        Unhandled ''[Errno 28] No space left on device'')
   \<and> upload_schedule ''/tmp/uploads'' id
       \<lparr>uuid4_hex = ''0123456789abcdef0123456789abcdef'',
        save_outcome = RaisesAtOpen ''[Errno 28] No space left on device'',
        dump_outcome = Completes\<rparr>
       (map_of [])
       \<lparr>content_length = 300,
        files = [(''file'', \<lparr>filename = ''alice.ics'', stream = [66, 69, 71]\<rparr>)],
        form = [(''name'', ''Alice'')], url_root = ''http://h/''\<rparr>
     = (map_of [],
        Json [(''success'', JBool False),
              (''error'', JStr ''Failed to save: [Errno 28] No space left on device'')] 500)"
  using allowed_alice
  by (simp add: upload_schedule_def MAX_BYTES_def save_def dump_meta_def path_join_def)

subsection \<open>C4: the size limit\<close>






subsection \<open>C3: two uploads and their ids\<close>

lemma get_ics_404_iff: "get_ics d fs i = Abort 404 \<longleftrightarrow> fs (path_join d (i @ ''.ics'')) = None"
  by (simp add: get_ics_def split: option.splits)

lemma get_meta_404_iff: "get_meta d fs i = Abort 404 \<longleftrightarrow> fs (path_join d (i @ ''.json'')) = None"
  by (simp add: get_meta_def split: option.splits content.splits)

lemma upload_other_ids:
  assumes "upload_schedule d sf ev fs req = (fs', r)"
    and "take 1 (uuid4_hex ev) \<noteq> ''/''" and "take 1 x \<noteq> ''/''" and "x \<noteq> uuid4_hex ev"
  shows "fs' (path_join d (x @ ''.ics'')) = fs (path_join d (x @ ''.ics''))"
    and "fs' (path_join d (x @ ''.json'')) = fs (path_join d (x @ ''.json''))"
proof -
  show "fs' (path_join d (x @ ''.ics'')) = fs (path_join d (x @ ''.ics''))"
  proof (rule ccontr)
    assume "fs' (path_join d (x @ ''.ics'')) \<noteq> fs (path_join d (x @ ''.ics''))"
    from upload_changes [OF assms(1) this]
    have "path_join d (x @ ''.ics'') = path_join d (uuid4_hex ev @ ''.ics'') \<or>
          path_join d (x @ ''.ics'') = path_join d (uuid4_hex ev @ ''.json'')" .
    moreover have "path_join d (x @ ''.ics'') \<noteq> path_join d (uuid4_hex ev @ ''.json'')"
      by (rule ics_json_distinct)
    ultimately have "path_join d (x @ ''.ics'') = path_join d (uuid4_hex ev @ ''.ics'')" by auto
    from ics_path_inj [OF assms(3) assms(2) this] assms(4) show False by simp
  qed
  show "fs' (path_join d (x @ ''.json'')) = fs (path_join d (x @ ''.json''))"
  proof (rule ccontr)
    assume "fs' (path_join d (x @ ''.json'')) \<noteq> fs (path_join d (x @ ''.json''))"
    from upload_changes [OF assms(1) this]
    have "path_join d (x @ ''.json'') = path_join d (uuid4_hex ev @ ''.ics'') \<or>
          path_join d (x @ ''.json'') = path_join d (uuid4_hex ev @ ''.json'')" .
    moreover have "path_join d (uuid4_hex ev @ ''.ics'') \<noteq> path_join d (x @ ''.json'')"
      by (rule ics_json_distinct)
    ultimately have "path_join d (x @ ''.json'') = path_join d (uuid4_hex ev @ ''.json'')" by auto
    from json_path_inj [OF assms(3) assms(2) this] assms(4) show False by simp
  qed
qed

text \<open>
  C3, as the code has it. \<^verbatim>\<open>upload_schedule\<close> writes under the id \<^verbatim>\<open>uuid4\<close> gave it,
  with no look at what the directory holds. When two successive successful uploads drew
  different ids, the answers carry these two ids, both payloads are served afterwards
  (also when the contents are identical), the first record is unchanged, and in general
  the second upload changes what \<^verbatim>\<open>get_ics\<close> and \<^verbatim>\<open>get_meta\<close> return for no id but its
  own.
\<close>

theorem distinct_ids_keep_both:
  assumes "is_uuid_hex (uuid4_hex ev1)" and "is_uuid_hex (uuid4_hex ev2)"
    and "uuid4_hex ev1 \<noteq> uuid4_hex ev2"
    and "map_of (files r1) ''file'' = Some u1" and "map_of (files r2) ''file'' = Some u2"
    and "upload_schedule d sf ev1 fs r1 = (fs1, Json js1 200)"
    and "upload_schedule d sf ev2 fs1 r2 = (fs2, Json js2 200)"
  shows "map_of js1 ''id'' = Some (JStr (uuid4_hex ev1))
       \<and> map_of js2 ''id'' = Some (JStr (uuid4_hex ev2))
       \<and> get_ics d fs2 (uuid4_hex ev1) = SendFile (Blob (stream u1)) ''text/calendar''
       \<and> get_ics d fs2 (uuid4_hex ev2) = SendFile (Blob (stream u2)) ''text/calendar''
       \<and> get_meta d fs2 (uuid4_hex ev1) = get_meta d fs1 (uuid4_hex ev1)
       \<and> (\<forall>x. take 1 x \<noteq> ''/'' \<and> x \<noteq> uuid4_hex ev2 \<longrightarrow>
              get_ics d fs2 x = get_ics d fs1 x \<and> get_meta d fs2 x = get_meta d fs1 x)"
proof -
  note n1 = uuid_no_slash [OF assms(1)] and n2 = uuid_no_slash [OF assms(2)]
  have O: "get_ics d fs2 x = get_ics d fs1 x \<and> get_meta d fs2 x = get_meta d fs1 x"
    if h: "take 1 x \<noteq> ''/'' \<and> x \<noteq> uuid4_hex ev2" for x
  proof
    from h have a: "take 1 x \<noteq> ''/''" and b: "x \<noteq> uuid4_hex ev2" by simp_all
    show "get_ics d fs2 x = get_ics d fs1 x"
      using upload_other_ids(1) [OF assms(7) n2 a b] by (simp add: get_ics_def)
    show "get_meta d fs2 x = get_meta d fs1 x"
      using upload_other_ids(2) [OF assms(7) n2 a b] by (simp add: get_meta_def)
  qed
  have A: "map_of js1 ''id'' = Some (JStr (uuid4_hex ev1))"
    by (rule get_ics_after_success(3) [OF assms(6) assms(4)])
  have B: "map_of js2 ''id'' = Some (JStr (uuid4_hex ev2))"
    by (rule get_ics_after_success(3) [OF assms(7) assms(5)])
  from n1 assms(3) have "take 1 (uuid4_hex ev1) \<noteq> ''/'' \<and> uuid4_hex ev1 \<noteq> uuid4_hex ev2" by simp
  note o1 = O [OF this]
  from o1 have D: "get_meta d fs2 (uuid4_hex ev1) = get_meta d fs1 (uuid4_hex ev1)" ..
  from o1 have "get_ics d fs2 (uuid4_hex ev1) = get_ics d fs1 (uuid4_hex ev1)" ..
  also have "\<dots> = SendFile (Blob (stream u1)) ''text/calendar''"
    by (rule get_ics_after_success(2) [OF assms(6) assms(4)])
  finally have C: "get_ics d fs2 (uuid4_hex ev1) = SendFile (Blob (stream u1)) ''text/calendar''" .
  have E: "get_ics d fs2 (uuid4_hex ev2) = SendFile (Blob (stream u2)) ''text/calendar''"
    by (rule get_ics_after_success(2) [OF assms(7) assms(5)])
  from O have F: "\<forall>x. take 1 x \<noteq> ''/'' \<and> x \<noteq> uuid4_hex ev2 \<longrightarrow>
              get_ics d fs2 x = get_ics d fs1 x \<and> get_meta d fs2 x = get_meta d fs1 x" by blast
  show ?thesis by (rule conjI [OF A conjI [OF B conjI [OF C conjI [OF E conjI [OF D F]]]]])
qed


theorem distinct_ids_keep_both_witness:
  "\<exists>fs1 js1 fs2 js2.
     upload_schedule ''/tmp/uploads'' id
       \<lparr>uuid4_hex = ''0123456789abcdef0123456789abcdef'',
        save_outcome = Completes, dump_outcome = Completes\<rparr>
       (map_of [])
       \<lparr>content_length = 300,
        files = [(''file'', \<lparr>filename = ''alice.ics'', stream = [66, 69, 71]\<rparr>)],
        form = [(''name'', ''Alice'')], url_root = ''http://h/''\<rparr>
     = (fs1, Json js1 200) \<and>
     upload_schedule ''/tmp/uploads'' id
       \<lparr>uuid4_hex = ''fedcba9876543210fedcba9876543210'',
        save_outcome = Completes, dump_outcome = Completes\<rparr>
       fs1
       \<lparr>content_length = 300,
        files = [(''file'', \<lparr>filename = ''alice.ics'', stream = [66, 69, 71]\<rparr>)],
        form = [(''name'', ''Alice'')], url_root = ''http://h/''\<rparr>
     = (fs2, Json js2 200) \<and>
     map_of js1 ''id'' = Some (JStr ''0123456789abcdef0123456789abcdef'') \<and>
     map_of js2 ''id'' = Some (JStr ''fedcba9876543210fedcba9876543210'') \<and>
     get_ics ''/tmp/uploads'' fs2 ''0123456789abcdef0123456789abcdef''
       = SendFile (Blob [66, 69, 71]) ''text/calendar'' \<and>
     get_ics ''/tmp/uploads'' fs2 ''fedcba9876543210fedcba9876543210''
       = SendFile (Blob [66, 69, 71]) ''text/calendar''"
proof -
  let ?e1 = "\<lparr>uuid4_hex = ''0123456789abcdef0123456789abcdef'',
        save_outcome = Completes, dump_outcome = Completes\<rparr>"
  let ?e2 = "\<lparr>uuid4_hex = ''fedcba9876543210fedcba9876543210'',
        save_outcome = Completes, dump_outcome = Completes\<rparr>"
  let ?up = "\<lparr>filename = ''alice.ics'', stream = [66, 69, 71 :: byte]\<rparr>"
  let ?r = "\<lparr>content_length = 300, files = [(''file'', ?up)],
        form = [(''name'', ''Alice'')], url_root = ''http://h/''\<rparr>"
  have h1: "is_uuid_hex (uuid4_hex ?e1)" and h2: "is_uuid_hex (uuid4_hex ?e2)"
    by (simp_all add: is_uuid_hex_def)
  have ne: "uuid4_hex ?e1 \<noteq> uuid4_hex ?e2" by simp
  have f: "map_of (files ?r) ''file'' = Some ?up" by simp
  have "\<exists>fs1 js1. upload_schedule ''/tmp/uploads'' id ?e1 (map_of []) ?r = (fs1, Json js1 200)"
    using upload_success [of ?r ?up ?e1 "''/tmp/uploads''" id "map_of []"] allowed_alice
    by (simp add: MAX_BYTES_def)
  then obtain fs1 js1 where
    r1: "upload_schedule ''/tmp/uploads'' id ?e1 (map_of []) ?r = (fs1, Json js1 200)" by blast
  have "\<exists>fs2 js2. upload_schedule ''/tmp/uploads'' id ?e2 fs1 ?r = (fs2, Json js2 200)"
    using upload_success [of ?r ?up ?e2 "''/tmp/uploads''" id fs1] allowed_alice
    by (simp add: MAX_BYTES_def)
  then obtain fs2 js2 where
    r2: "upload_schedule ''/tmp/uploads'' id ?e2 fs1 ?r = (fs2, Json js2 200)" by blast
  note T = distinct_ids_keep_both [OF h1 h2 ne f f r1 r2]
  from T have a: "map_of js1 ''id'' = Some (JStr ''0123456789abcdef0123456789abcdef'')"
    and b: "map_of js2 ''id'' = Some (JStr ''fedcba9876543210fedcba9876543210'')"
    and c: "get_ics ''/tmp/uploads'' fs2 ''0123456789abcdef0123456789abcdef''
       = SendFile (Blob [66, 69, 71]) ''text/calendar''"
    and d: "get_ics ''/tmp/uploads'' fs2 ''fedcba9876543210fedcba9876543210''
       = SendFile (Blob [66, 69, 71]) ''text/calendar''"
    by simp_all
  from r1 r2 a b c d show ?thesis by blast
qed

text \<open>
  C3 as stated fails when \<^verbatim>\<open>uuid4\<close> returns an id a second time: nothing is regenerated,
  both uploads answer success with the same id, and the first payload is overwritten by
  the second.
\<close>

theorem colliding_id_overwrites:
  "snd (run_uploads ''/tmp/uploads'' id (map_of [])
     [(\<lparr>uuid4_hex = ''0123456789abcdef0123456789abcdef'',
        save_outcome = Completes, dump_outcome = Completes\<rparr>,
       \<lparr>content_length = 300,
        files = [(''file'', \<lparr>filename = ''alice.ics'', stream = [66, 69, 71]\<rparr>)],
        form = [(''name'', ''Alice'')], url_root = ''http://h/''\<rparr>),
      (\<lparr>uuid4_hex = ''0123456789abcdef0123456789abcdef'',
        save_outcome = Completes, dump_outcome = Completes\<rparr>,
       \<lparr>content_length = 300,
        files = [(''file'', \<lparr>filename = ''bob.ics'', stream = [1, 2]\<rparr>)],
        form = [(''name'', ''Bob'')], url_root = ''http://h/''\<rparr>)])
   = [Json [(''success'', JBool True), (''id'', JStr ''0123456789abcdef0123456789abcdef''),
            (''name'', JStr ''Alice''),
            (''link'', JStr ''http://h/s/0123456789abcdef0123456789abcdef'')] 200,
      Json [(''success'', JBool True), (''id'', JStr ''0123456789abcdef0123456789abcdef''),
            (''name'', JStr ''Bob''),
            (''link'', JStr ''http://h/s/0123456789abcdef0123456789abcdef'')] 200]
   \<and> get_ics ''/tmp/uploads''
        (fst (run_uploads ''/tmp/uploads'' id (map_of [])
     [(\<lparr>uuid4_hex = ''0123456789abcdef0123456789abcdef'',
        save_outcome = Completes, dump_outcome = Completes\<rparr>,
       \<lparr>content_length = 300,
        files = [(''file'', \<lparr>filename = ''alice.ics'', stream = [66, 69, 71]\<rparr>)],
        form = [(''name'', ''Alice'')], url_root = ''http://h/''\<rparr>),
      (\<lparr>uuid4_hex = ''0123456789abcdef0123456789abcdef'',
        save_outcome = Completes, dump_outcome = Completes\<rparr>,
       \<lparr>content_length = 300,
        files = [(''file'', \<lparr>filename = ''bob.ics'', stream = [1, 2]\<rparr>)],
        form = [(''name'', ''Bob'')], url_root = ''http://h/''\<rparr>)]))
        ''0123456789abcdef0123456789abcdef''
   = SendFile (Blob [1, 2]) ''text/calendar''"
proof -
  let ?e = "\<lparr>uuid4_hex = ''0123456789abcdef0123456789abcdef'',
        save_outcome = Completes, dump_outcome = Completes\<rparr>"
  let ?u1 = "\<lparr>filename = ''alice.ics'', stream = [66, 69, 71 :: byte]\<rparr>"
  let ?u2 = "\<lparr>filename = ''bob.ics'', stream = [1, 2 :: byte]\<rparr>"
  let ?r1 = "\<lparr>content_length = 300, files = [(''file'', ?u1)],
        form = [(''name'', ''Alice'')], url_root = ''http://h/''\<rparr>"
  let ?r2 = "\<lparr>content_length = 300, files = [(''file'', ?u2)],
        form = [(''name'', ''Bob'')], url_root = ''http://h/''\<rparr>"
  have a2: "allowed_filename ''bob.ics''" by code_simp
  have s1: "strip ''Alice'' = ''Alice''" and s2: "strip ''Bob'' = ''Bob''" by code_simp+
  have l: "rstrip_slash ''http://h/'' = ''http://h''" by code_simp
  have u1: "upload_schedule ''/tmp/uploads'' id ?e fs ?r1 =
     (fs(''/tmp/uploads/0123456789abcdef0123456789abcdef.ics'' \<mapsto> Blob [66, 69, 71],
         ''/tmp/uploads/0123456789abcdef0123456789abcdef.json'' \<mapsto>
           JsonText [(''id'', JStr ''0123456789abcdef0123456789abcdef''),
             (''name'', JStr ''Alice''), (''orig_name'', JStr ''alice.ics'')]),
      Json [(''success'', JBool True), (''id'', JStr ''0123456789abcdef0123456789abcdef''),
            (''name'', JStr ''Alice''),
            (''link'', JStr ''http://h/s/0123456789abcdef0123456789abcdef'')] 200)" for fs
    using upload_success [of ?r1 ?u1 ?e "''/tmp/uploads''" id fs] allowed_alice s1 l
    by (simp add: MAX_BYTES_def path_join_def)
  have u2: "upload_schedule ''/tmp/uploads'' id ?e fs ?r2 =
     (fs(''/tmp/uploads/0123456789abcdef0123456789abcdef.ics'' \<mapsto> Blob [1, 2],
         ''/tmp/uploads/0123456789abcdef0123456789abcdef.json'' \<mapsto>
           JsonText [(''id'', JStr ''0123456789abcdef0123456789abcdef''),
             (''name'', JStr ''Bob''), (''orig_name'', JStr ''bob.ics'')]),
      Json [(''success'', JBool True), (''id'', JStr ''0123456789abcdef0123456789abcdef''),
            (''name'', JStr ''Bob''),
            (''link'', JStr ''http://h/s/0123456789abcdef0123456789abcdef'')] 200)" for fs
    using upload_success [of ?r2 ?u2 ?e "''/tmp/uploads''" id fs] a2 s2 l
    by (simp add: MAX_BYTES_def path_join_def)
  show ?thesis
    by (simp add: u1 u2 get_ics_def path_join_def)
qed

subsection \<open>C2: no record without its artifact\<close>

text \<open>
  The store is followed through any sequence of uploads from the empty directory, each
  with any outcome of its two writes. A run of \<^verbatim>\<open>upload_schedule\<close> stopped between its
  writes leaves the store that the same run leaves when \<^verbatim>\<open>open(meta_path, "w")\<close> raises;
  one stopped inside a write leaves the store of a write that raised part-way. So the
  stores reached by these sequences are also the ones a reader can see in between.
\<close>

lemma upload_inv:
  assumes u: "upload_schedule d sf ev fs req = (fs', r)"
    and inv: "\<forall>i. fs (path_join d (i @ ''.json'')) \<noteq> None \<longrightarrow> fs (path_join d (i @ ''.ics'')) \<noteq> None"
  shows "\<forall>i. fs' (path_join d (i @ ''.json'')) \<noteq> None \<longrightarrow> fs' (path_join d (i @ ''.ics'')) \<noteq> None"
proof (intro allI impI)
  fix i assume j: "fs' (path_join d (i @ ''.json'')) \<noteq> None"
  show "fs' (path_join d (i @ ''.ics'')) \<noteq> None"
  proof (cases "fs' (path_join d (i @ ''.json'')) = fs (path_join d (i @ ''.json''))")
    case True
    with j have "fs (path_join d (i @ ''.json'')) \<noteq> None" by simp
    with inv have "fs (path_join d (i @ ''.ics'')) \<noteq> None" by blast
    with u show ?thesis by (rule upload_keeps)
  next
    case False
    from upload_changes [OF u False]
    have "path_join d (i @ ''.json'') = path_join d (uuid4_hex ev @ ''.ics'') \<or>
          path_join d (i @ ''.json'') = path_join d (uuid4_hex ev @ ''.json'')" .
    moreover have "path_join d (uuid4_hex ev @ ''.ics'') \<noteq> path_join d (i @ ''.json'')"
      by (rule ics_json_distinct)
    ultimately have e: "path_join d (i @ ''.json'') = path_join d (uuid4_hex ev @ ''.json'')" by auto
    with False have "fs' (path_join d (uuid4_hex ev @ ''.json'')) \<noteq>
        fs (path_join d (uuid4_hex ev @ ''.json''))" by simp
    with u have "fs' (path_join d (uuid4_hex ev @ ''.ics'')) \<noteq> None" by (rule upload_json_needs_ics)
    with json_eq_imp_ics_eq [OF e] show ?thesis by simp
  qed
qed

lemma run_inv:
  assumes "run_uploads d sf fs steps = (fs', rs)"
    and "\<forall>i. fs (path_join d (i @ ''.json'')) \<noteq> None \<longrightarrow> fs (path_join d (i @ ''.ics'')) \<noteq> None"
  shows "\<forall>i. fs' (path_join d (i @ ''.json'')) \<noteq> None \<longrightarrow> fs' (path_join d (i @ ''.ics'')) \<noteq> None"
  using assms
proof (induction steps arbitrary: fs fs' rs)
  case Nil
  then show ?case by simp
next
  case (Cons s steps)
  obtain ev req where s: "s = (ev, req)" by (cases s)
  obtain fs1 r where u: "upload_schedule d sf ev fs req = (fs1, r)"
    by (cases "upload_schedule d sf ev fs req")
  obtain fs2 rs2 where t: "run_uploads d sf fs1 steps = (fs2, rs2)"
    by (cases "run_uploads d sf fs1 steps")
  from Cons.prems(1) s u t have "fs' = fs2" by simp
  moreover from upload_inv [OF u Cons.prems(2)] Cons.IH [OF t]
  have "\<forall>i. fs2 (path_join d (i @ ''.json'')) \<noteq> None \<longrightarrow> fs2 (path_join d (i @ ''.ics'')) \<noteq> None"
    by blast
  ultimately show ?case by simp
qed

lemma save_inv:
  assumes "\<forall>i. fs (path_join d (i @ ''.json'')) \<noteq> None \<longrightarrow> fs (path_join d (i @ ''.ics'')) \<noteq> None"
    and "fst (save fs (path_join d (x @ ''.ics'')) bs out) (path_join d (i @ ''.json'')) \<noteq> None"
  shows "fst (save fs (path_join d (x @ ''.ics'')) bs out) (path_join d (i @ ''.ics'')) \<noteq> None"
  using assms ics_json_distinct [of d x i]
  by (cases out) (auto simp: save_def)

lemma run_files_drawn:
  assumes "run_uploads d sf fs0 steps = (fs, rs)" and "fs p \<noteq> None"
  shows "fs0 p \<noteq> None \<or>
     (\<exists>x \<in> set (map (\<lambda>(ev, req). uuid4_hex ev) steps).
        p = path_join d (x @ ''.ics'') \<or> p = path_join d (x @ ''.json''))"
  using assms
proof (induction steps arbitrary: fs0 fs rs)
  case Nil
  then show ?case by simp
next
  case (Cons s steps)
  obtain ev req where s: "s = (ev, req)" by (cases s)
  obtain fs1 r where u: "upload_schedule d sf ev fs0 req = (fs1, r)"
    by (cases "upload_schedule d sf ev fs0 req")
  obtain fs2 rs2 where t: "run_uploads d sf fs1 steps = (fs2, rs2)"
    by (cases "run_uploads d sf fs1 steps")
  from Cons.prems(1) s u t have e: "fs = fs2" by simp
  from Cons.IH [OF t] Cons.prems(2) e
  have "fs1 p \<noteq> None \<or>
     (\<exists>x \<in> set (map (\<lambda>(ev, req). uuid4_hex ev) steps).
        p = path_join d (x @ ''.ics'') \<or> p = path_join d (x @ ''.json''))" by simp
  moreover have "fs0 p \<noteq> None \<or> p = path_join d (uuid4_hex ev @ ''.ics'') \<or>
      p = path_join d (uuid4_hex ev @ ''.json'')" if "fs1 p \<noteq> None"
  proof (cases "fs1 p = fs0 p")
    case True
    with that show ?thesis by simp
  next
    case False
    from upload_changes [OF u False] show ?thesis by simp
  qed
  ultimately show ?case unfolding s by auto
qed

lemma upload_json_written:
  assumes "upload_schedule d sf ev fs req = (fs', r)"
    and "fs' (path_join d (uuid4_hex ev @ ''.json'')) \<noteq> fs (path_join d (uuid4_hex ev @ ''.json''))"
  shows "\<exists>up. map_of (files req) ''file'' = Some up \<and>
           fs' (path_join d (uuid4_hex ev @ ''.ics'')) = Some (Blob (stream up))"
  using assms ics_json_distinct [of d "uuid4_hex ev" "uuid4_hex ev"]
  by (auto simp: upload_schedule_def Let_def save_def dump_meta_def
      split: if_splits option.splits io_outcome.splits)

lemma run_other_ids:
  assumes "run_uploads d sf fs0 steps = (fs, rs)"
    and "list_all (\<lambda>(ev, req). is_uuid_hex (uuid4_hex ev)) steps"
    and "take 1 x \<noteq> ''/''"
    and "x \<notin> set (map (\<lambda>(ev, req). uuid4_hex ev) steps)"
  shows "fs (path_join d (x @ ''.ics'')) = fs0 (path_join d (x @ ''.ics'')) \<and>
         fs (path_join d (x @ ''.json'')) = fs0 (path_join d (x @ ''.json''))"
  using assms
proof (induction steps arbitrary: fs0 fs rs)
  case Nil
  then show ?case by simp
next
  case (Cons s steps)
  obtain ev req where s: "s = (ev, req)" by (cases s)
  obtain fs1 r where u: "upload_schedule d sf ev fs0 req = (fs1, r)"
    by (cases "upload_schedule d sf ev fs0 req")
  obtain fs2 rs2 where t: "run_uploads d sf fs1 steps = (fs2, rs2)"
    by (cases "run_uploads d sf fs1 steps")
  from Cons.prems(1) s u t have e: "fs = fs2" by simp
  from Cons.prems(2) s have h: "is_uuid_hex (uuid4_hex ev)"
    and hs: "list_all (\<lambda>(ev, req). is_uuid_hex (uuid4_hex ev)) steps" by simp_all
  from Cons.prems(4) s have ne: "x \<noteq> uuid4_hex ev"
    and nx: "x \<notin> set (map (\<lambda>(ev, req). uuid4_hex ev) steps)" by auto
  from Cons.IH [OF t hs Cons.prems(3) nx]
  have 1: "fs2 (path_join d (x @ ''.ics'')) = fs1 (path_join d (x @ ''.ics''))"
    and 2: "fs2 (path_join d (x @ ''.json'')) = fs1 (path_join d (x @ ''.json''))" by simp_all
  note o = upload_other_ids [OF u uuid_no_slash [OF h] Cons.prems(3) ne]
  from 1 2 o show ?case unfolding e by simp
qed

lemma run_record_once:
  assumes "run_uploads d sf fs0 steps = (fs, rs)"
    and "list_all (\<lambda>(ev, req). is_uuid_hex (uuid4_hex ev)) steps"
    and "take 1 x \<noteq> ''/''"
    and "count_list (map (\<lambda>(ev, req). uuid4_hex ev) steps) x \<le> 1"
    and "fs0 (path_join d (x @ ''.json'')) = None"
    and "fs (path_join d (x @ ''.json'')) \<noteq> None"
  shows "\<exists>ev req up. (ev, req) \<in> set steps \<and> uuid4_hex ev = x \<and>
           map_of (files req) ''file'' = Some up \<and>
           fs (path_join d (x @ ''.ics'')) = Some (Blob (stream up))"
  using assms
proof (induction steps arbitrary: fs0 fs rs)
  case Nil
  then show ?case by simp
next
  case (Cons s steps)
  obtain ev req where s: "s = (ev, req)" by (cases s)
  obtain fs1 r where u: "upload_schedule d sf ev fs0 req = (fs1, r)"
    by (cases "upload_schedule d sf ev fs0 req")
  obtain fs2 rs2 where t: "run_uploads d sf fs1 steps = (fs2, rs2)"
    by (cases "run_uploads d sf fs1 steps")
  from Cons.prems(1) s u t have e: "fs = fs2" by simp
  from Cons.prems(2) s have h: "is_uuid_hex (uuid4_hex ev)"
    and hs: "list_all (\<lambda>(ev, req). is_uuid_hex (uuid4_hex ev)) steps" by simp_all
  show ?case
  proof (cases "uuid4_hex ev = x")
    case True
    with Cons.prems(4) s have "count_list (map (\<lambda>(ev, req). uuid4_hex ev) steps) x = 0" by simp
    then have nx: "x \<notin> set (map (\<lambda>(ev, req). uuid4_hex ev) steps)"
      by (rule iffD1 [OF count_list_0_iff])
    from run_other_ids [OF t hs Cons.prems(3) nx]
    have k: "fs2 (path_join d (x @ ''.ics'')) = fs1 (path_join d (x @ ''.ics''))"
      "fs2 (path_join d (x @ ''.json'')) = fs1 (path_join d (x @ ''.json''))"
      by simp_all
    from Cons.prems(5,6) e k True
    have "fs1 (path_join d (uuid4_hex ev @ ''.json'')) \<noteq> fs0 (path_join d (uuid4_hex ev @ ''.json''))"
      by simp
    from upload_json_written [OF u this] obtain up where
      "map_of (files req) ''file'' = Some up"
      "fs1 (path_join d (uuid4_hex ev @ ''.ics'')) = Some (Blob (stream up))" by blast
    with k True e s have "(ev, req) \<in> set (s # steps) \<and> uuid4_hex ev = x \<and>
           map_of (files req) ''file'' = Some up \<and>
           fs (path_join d (x @ ''.ics'')) = Some (Blob (stream up))" by simp
    then show ?thesis by blast
  next
    case False
    then have ne: "x \<noteq> uuid4_hex ev" by simp
    from upload_other_ids(2) [OF u uuid_no_slash [OF h] Cons.prems(3) ne] Cons.prems(5)
    have fresh: "fs1 (path_join d (x @ ''.json'')) = None" by simp
    from Cons.prems(4) s False
    have c: "count_list (map (\<lambda>(ev, req). uuid4_hex ev) steps) x \<le> 1" by simp
    from Cons.prems(6) e have j: "fs2 (path_join d (x @ ''.json'')) \<noteq> None" by simp
    from Cons.IH [OF t hs Cons.prems(3) c fresh j] obtain ev' req' up where
      "(ev', req') \<in> set steps" "uuid4_hex ev' = x" "map_of (files req') ''file'' = Some up"
      "fs2 (path_join d (x @ ''.ics'')) = Some (Blob (stream up))" by blast
    then have "(ev', req') \<in> set (s # steps) \<and> uuid4_hex ev' = x \<and>
           map_of (files req') ''file'' = Some up \<and>
           fs (path_join d (x @ ''.ics'')) = Some (Blob (stream up))" unfolding e by simp
    then show ?thesis by blast
  qed
qed

lemma record_payload_once:
  assumes run: "run_uploads d sf Map.empty steps = (fs, rs)"
    and hex: "list_all (\<lambda>(ev, req). is_uuid_hex (uuid4_hex ev)) steps"
    and i: "take 1 i \<noteq> ''/''"
    and once: "count_list (map (\<lambda>(ev, req). uuid4_hex ev) steps) i \<le> 1"
    and m: "get_meta d fs i \<noteq> Abort 404"
  shows "\<exists>ev req up. (ev, req) \<in> set steps \<and> uuid4_hex ev = i \<and>
           map_of (files req) ''file'' = Some up \<and>
           get_ics d fs i = SendFile (Blob (stream up)) ''text/calendar''"
proof -
  from m have j: "fs (path_join d (i @ ''.json'')) \<noteq> None" by (simp add: get_meta_404_iff)
  have fresh: "Map.empty (path_join d (i @ ''.json'')) = (None :: content option)" by simp
  from run_record_once [OF run hex i once fresh j] obtain ev req up where
    "(ev, req) \<in> set steps" "uuid4_hex ev = i" "map_of (files req) ''file'' = Some up"
    "fs (path_join d (i @ ''.ics'')) = Some (Blob (stream up))" by blast
  then have "(ev, req) \<in> set steps \<and> uuid4_hex ev = i \<and>
      map_of (files req) ''file'' = Some up \<and>
      get_ics d fs i = SendFile (Blob (stream up)) ''text/calendar''"
    by (simp add: get_ics_def)
  then show ?thesis by blast
qed

text \<open>
  C2, as the code has it. In every store reached from the empty directory by a sequence of
  uploads, whatever the outcomes of their writes: when \<^verbatim>\<open>get_meta\<close> finds a file for an
  id, \<^verbatim>\<open>get_ics\<close> finds one too (the metadata file is written after the payload write,
  never before, and no file is removed); for an id that \<^verbatim>\<open>uuid4\<close> returned at most once,
  what \<^verbatim>\<open>get_ics\<close> then sends is the whole payload of the upload that drew this id; the
  first statement still holds after the payload write alone of a further upload; and when
  a further upload answers success, \<^verbatim>\<open>get_ics\<close> sends its payload and \<^verbatim>\<open>get_meta\<close> returns
  its record.
\<close>

theorem record_has_artifact:
  assumes "run_uploads d sf Map.empty steps = (fs, rs)"
  shows "(\<forall>i. get_meta d fs i \<noteq> Abort 404 \<longrightarrow> get_ics d fs i \<noteq> Abort 404)
       \<and> (list_all (\<lambda>(ev, req). is_uuid_hex (uuid4_hex ev)) steps \<longrightarrow>
            (\<forall>i. take 1 i \<noteq> ''/'' \<and>
                 count_list (map (\<lambda>(ev, req). uuid4_hex ev) steps) i \<le> 1 \<and>
                 get_meta d fs i \<noteq> Abort 404 \<longrightarrow>
               (\<exists>ev req up. (ev, req) \<in> set steps \<and> uuid4_hex ev = i \<and>
                  map_of (files req) ''file'' = Some up \<and>
                  get_ics d fs i = SendFile (Blob (stream up)) ''text/calendar'')))
       \<and> (\<forall>x bs out i.
             get_meta d (fst (save fs (path_join d (x @ ''.ics'')) bs out)) i \<noteq> Abort 404 \<longrightarrow>
             get_ics d (fst (save fs (path_join d (x @ ''.ics'')) bs out)) i \<noteq> Abort 404)
       \<and> (\<forall>ev req fs' js. upload_schedule d sf ev fs req = (fs', Json js 200) \<longrightarrow>
             (\<exists>up m. map_of (files req) ''file'' = Some up \<and>
                get_ics d fs' (uuid4_hex ev) = SendFile (Blob (stream up)) ''text/calendar'' \<and>
                get_meta d fs' (uuid4_hex ev) = Json m 200 \<and>
                map_of m ''id'' = Some (JStr (uuid4_hex ev))))"
proof -
  have inv: "\<forall>i. fs (path_join d (i @ ''.json'')) \<noteq> None \<longrightarrow> fs (path_join d (i @ ''.ics'')) \<noteq> None"
    by (rule run_inv [OF assms]) simp
  have A: "\<forall>i. get_meta d fs i \<noteq> Abort 404 \<longrightarrow> get_ics d fs i \<noteq> Abort 404"
    unfolding get_meta_404_iff get_ics_404_iff by (rule inv)
  have B: "\<forall>x bs out i.
             get_meta d (fst (save fs (path_join d (x @ ''.ics'')) bs out)) i \<noteq> Abort 404 \<longrightarrow>
             get_ics d (fst (save fs (path_join d (x @ ''.ics'')) bs out)) i \<noteq> Abort 404"
    unfolding get_meta_404_iff get_ics_404_iff using save_inv [OF inv] by blast
  have C: "\<forall>ev req fs' js. upload_schedule d sf ev fs req = (fs', Json js 200) \<longrightarrow>
             (\<exists>up m. map_of (files req) ''file'' = Some up \<and>
                get_ics d fs' (uuid4_hex ev) = SendFile (Blob (stream up)) ''text/calendar'' \<and>
                get_meta d fs' (uuid4_hex ev) = Json m 200 \<and>
                map_of m ''id'' = Some (JStr (uuid4_hex ev)))"
  proof (intro allI impI)
    fix ev req fs' js
    assume u: "upload_schedule d sf ev fs req = (fs', Json js 200)"
    from upload_success_shape [OF u] obtain up :: file_storage where
      f: "map_of (files req) ''file'' = Some up"
      and fs': "fs' = fs(path_join d (uuid4_hex ev @ ''.ics'') \<mapsto> Blob (stream up),
        path_join d (uuid4_hex ev @ ''.json'') \<mapsto>
          JsonText [(''id'', JStr (uuid4_hex ev)),
            (''name'', JStr (if strip (case map_of (form req) ''name'' of None \<Rightarrow> [] | Some v \<Rightarrow> v) = []
               then ''Unnamed Student''
               else strip (case map_of (form req) ''name'' of None \<Rightarrow> [] | Some v \<Rightarrow> v))),
            (''orig_name'', JStr (sf (filename up)))])"
      by auto
    have g: "get_ics d fs' (uuid4_hex ev) = SendFile (Blob (stream up)) ''text/calendar''"
      by (rule get_ics_after_success(2) [OF u f])
    have "fs' (path_join d (uuid4_hex ev @ ''.json'')) = Some (JsonText [(''id'', JStr (uuid4_hex ev)),
            (''name'', JStr (if strip (case map_of (form req) ''name'' of None \<Rightarrow> [] | Some v \<Rightarrow> v) = []
               then ''Unnamed Student''
               else strip (case map_of (form req) ''name'' of None \<Rightarrow> [] | Some v \<Rightarrow> v))),
            (''orig_name'', JStr (sf (filename up)))])"
      unfolding fs' by simp
    then have "\<exists>m. get_meta d fs' (uuid4_hex ev) = Json m 200 \<and>
        map_of m ''id'' = Some (JStr (uuid4_hex ev))"
      by (simp add: get_meta_def)
    with f g show "\<exists>up m. map_of (files req) ''file'' = Some up \<and>
                get_ics d fs' (uuid4_hex ev) = SendFile (Blob (stream up)) ''text/calendar'' \<and>
                get_meta d fs' (uuid4_hex ev) = Json m 200 \<and>
                map_of m ''id'' = Some (JStr (uuid4_hex ev))" by blast
  qed
  have W: "list_all (\<lambda>(ev, req). is_uuid_hex (uuid4_hex ev)) steps \<longrightarrow>
            (\<forall>i. take 1 i \<noteq> ''/'' \<and>
                 count_list (map (\<lambda>(ev, req). uuid4_hex ev) steps) i \<le> 1 \<and>
                 get_meta d fs i \<noteq> Abort 404 \<longrightarrow>
               (\<exists>ev req up. (ev, req) \<in> set steps \<and> uuid4_hex ev = i \<and>
                  map_of (files req) ''file'' = Some up \<and>
                  get_ics d fs i = SendFile (Blob (stream up)) ''text/calendar''))"
    using record_payload_once [OF assms] by blast
  show ?thesis by (rule conjI [OF A conjI [OF W conjI [OF B C]]])
qed


theorem record_has_artifact_witness:
  "\<exists>fs rs. run_uploads ''/tmp/uploads'' id Map.empty
     [(\<lparr>uuid4_hex = ''0123456789abcdef0123456789abcdef'',
        save_outcome = Completes,
        dump_outcome = RaisesAtOpen ''[Errno 28] No space left on device''\<rparr>,
       \<lparr>content_length = 300,
        files = [(''file'', \<lparr>filename = ''alice.ics'', stream = [66, 69, 71]\<rparr>)],
        form = [(''name'', ''Alice'')], url_root = ''http://h/''\<rparr>),
      (\<lparr>uuid4_hex = ''fedcba9876543210fedcba9876543210'',
        save_outcome = Completes, dump_outcome = Completes\<rparr>,
       \<lparr>content_length = 300,
        files = [(''file'', \<lparr>filename = ''alice.ics'', stream = [1, 2]\<rparr>)],
        form = [(''name'', ''Bob'')], url_root = ''http://h/''\<rparr>)] = (fs, rs)
   \<and> get_meta ''/tmp/uploads'' fs ''fedcba9876543210fedcba9876543210'' \<noteq> Abort 404
   \<and> get_ics ''/tmp/uploads'' fs ''fedcba9876543210fedcba9876543210'' \<noteq> Abort 404
   \<and> (\<exists>(req :: request) (up :: file_storage). map_of (files req) ''file'' = Some up \<and>
         get_ics ''/tmp/uploads'' fs ''fedcba9876543210fedcba9876543210''
           = SendFile (Blob (stream up)) ''text/calendar'')"
proof -
  let ?e1 = "\<lparr>uuid4_hex = ''0123456789abcdef0123456789abcdef'',
        save_outcome = Completes,
        dump_outcome = RaisesAtOpen ''[Errno 28] No space left on device''\<rparr>"
  let ?e2 = "\<lparr>uuid4_hex = ''fedcba9876543210fedcba9876543210'',
        save_outcome = Completes, dump_outcome = Completes\<rparr>"
  let ?r1 = "\<lparr>content_length = 300,
        files = [(''file'', \<lparr>filename = ''alice.ics'', stream = [66, 69, 71 :: byte]\<rparr>)],
        form = [(''name'', ''Alice'')], url_root = ''http://h/''\<rparr>"
  let ?r2 = "\<lparr>content_length = 300,
        files = [(''file'', \<lparr>filename = ''alice.ics'', stream = [1, 2 :: byte]\<rparr>)],
        form = [(''name'', ''Bob'')], url_root = ''http://h/''\<rparr>"
  obtain fs rs where
    r: "run_uploads ''/tmp/uploads'' id Map.empty [(?e1, ?r1), (?e2, ?r2)] = (fs, rs)"
    by (cases "run_uploads ''/tmp/uploads'' id Map.empty [(?e1, ?r1), (?e2, ?r2)]")
  have "fst (run_uploads ''/tmp/uploads'' id Map.empty [(?e1, ?r1), (?e2, ?r2)])
          ''/tmp/uploads/fedcba9876543210fedcba9876543210.json'' \<noteq> None"
    using allowed_alice
    by (simp add: upload_schedule_def Let_def MAX_BYTES_def save_def dump_meta_def path_join_def)
  with r have "fs ''/tmp/uploads/fedcba9876543210fedcba9876543210.json'' \<noteq> None" by simp
  then have m: "get_meta ''/tmp/uploads'' fs ''fedcba9876543210fedcba9876543210'' \<noteq> Abort 404"
    by (simp add: get_meta_404_iff path_join_def)
  have h: "list_all (\<lambda>(ev, req). is_uuid_hex (uuid4_hex ev)) [(?e1, ?r1), (?e2, ?r2)]"
    by (simp add: is_uuid_hex_def)
  have o: "take 1 ''fedcba9876543210fedcba9876543210'' \<noteq> ''/'' \<and>
      count_list (map (\<lambda>(ev, req). uuid4_hex ev) [(?e1, ?r1), (?e2, ?r2)])
        ''fedcba9876543210fedcba9876543210'' \<le> 1"
    by simp
  note T = record_has_artifact [OF r]
  from T m
  have g: "get_ics ''/tmp/uploads'' fs ''fedcba9876543210fedcba9876543210'' \<noteq> Abort 404" by blast
  from T h o m
  have "\<exists>ev req up. (ev, req) \<in> set [(?e1, ?r1), (?e2, ?r2)] \<and>
      uuid4_hex ev = ''fedcba9876543210fedcba9876543210'' \<and>
      map_of (files req) ''file'' = Some up \<and>
      get_ics ''/tmp/uploads'' fs ''fedcba9876543210fedcba9876543210''
        = SendFile (Blob (stream up)) ''text/calendar''" by blast
  then have w: "\<exists>(req :: request) (up :: file_storage). map_of (files req) ''file'' = Some up \<and>
         get_ics ''/tmp/uploads'' fs ''fedcba9876543210fedcba9876543210''
           = SendFile (Blob (stream up)) ''text/calendar''" by blast
  from r m g w show ?thesis by blast
qed

text \<open>
  C2 as stated fails when \<^verbatim>\<open>uuid4\<close> returns an id a second time and the second payload
  write raises at its start: the first upload's record is still returned for that id,
  while the payload file has been truncated and none of its bytes are left.
\<close>

theorem record_over_truncated_payload:
  "snd (run_uploads ''/tmp/uploads'' id (map_of [])
     [(\<lparr>uuid4_hex = ''0123456789abcdef0123456789abcdef'',
        save_outcome = Completes, dump_outcome = Completes\<rparr>,
       \<lparr>content_length = 300,
        files = [(''file'', \<lparr>filename = ''alice.ics'', stream = [66, 69, 71]\<rparr>)],
        form = [(''name'', ''Alice'')], url_root = ''http://h/''\<rparr>),
      (\<lparr>uuid4_hex = ''0123456789abcdef0123456789abcdef'',
        save_outcome = RaisesAfter 0 ''[Errno 28] No space left on device'',
        dump_outcome = Completes\<rparr>,
       \<lparr>content_length = 300,
        files = [(''file'', \<lparr>filename = ''bob.ics'', stream = [1, 2]\<rparr>)],
        form = [(''name'', ''Bob'')], url_root = ''http://h/''\<rparr>)])
   = [Json [(''success'', JBool True), (''id'', JStr ''0123456789abcdef0123456789abcdef''),
            (''name'', JStr ''Alice''),
            (''link'', JStr ''http://h/s/0123456789abcdef0123456789abcdef'')] 200,
      Json [(''success'', JBool False),
            (''error'', JStr ''Failed to save: [Errno 28] No space left on device'')] 500]
   \<and> get_meta ''/tmp/uploads''
        (fst (run_uploads ''/tmp/uploads'' id (map_of [])
     [(\<lparr>uuid4_hex = ''0123456789abcdef0123456789abcdef'',
        save_outcome = Completes, dump_outcome = Completes\<rparr>,
       \<lparr>content_length = 300,
        files = [(''file'', \<lparr>filename = ''alice.ics'', stream = [66, 69, 71]\<rparr>)],
        form = [(''name'', ''Alice'')], url_root = ''http://h/''\<rparr>),
      (\<lparr>uuid4_hex = ''0123456789abcdef0123456789abcdef'',
        save_outcome = RaisesAfter 0 ''[Errno 28] No space left on device'',
        dump_outcome = Completes\<rparr>,
       \<lparr>content_length = 300,
        files = [(''file'', \<lparr>filename = ''bob.ics'', stream = [1, 2]\<rparr>)],
        form = [(''name'', ''Bob'')], url_root = ''http://h/''\<rparr>)]))
        ''0123456789abcdef0123456789abcdef''
   = Json [(''id'', JStr ''0123456789abcdef0123456789abcdef''),
           (''name'', JStr ''Alice''), (''orig_name'', JStr ''alice.ics'')] 200
   \<and> get_ics ''/tmp/uploads''
        (fst (run_uploads ''/tmp/uploads'' id (map_of [])
     [(\<lparr>uuid4_hex = ''0123456789abcdef0123456789abcdef'',
        save_outcome = Completes, dump_outcome = Completes\<rparr>,
       \<lparr>content_length = 300,
        files = [(''file'', \<lparr>filename = ''alice.ics'', stream = [66, 69, 71]\<rparr>)],
        form = [(''name'', ''Alice'')], url_root = ''http://h/''\<rparr>),
      (\<lparr>uuid4_hex = ''0123456789abcdef0123456789abcdef'',
        save_outcome = RaisesAfter 0 ''[Errno 28] No space left on device'',
        dump_outcome = Completes\<rparr>,
       \<lparr>content_length = 300,
        files = [(''file'', \<lparr>filename = ''bob.ics'', stream = [1, 2]\<rparr>)],
        form = [(''name'', ''Bob'')], url_root = ''http://h/''\<rparr>)]))
        ''0123456789abcdef0123456789abcdef''
   = SendFile (Blob []) ''text/calendar''"
proof -
  have a2: "allowed_filename ''bob.ics''" by code_simp
  have s1: "strip ''Alice'' = ''Alice''" and s2: "strip ''Bob'' = ''Bob''" by code_simp+
  have l: "rstrip_slash ''http://h/'' = ''http://h''" by code_simp
  show ?thesis
    using allowed_alice a2 s1 s2 l
    by (simp add: upload_schedule_def Let_def MAX_BYTES_def save_def dump_meta_def path_join_def
        get_ics_def get_meta_def)
qed

subsection \<open>C5: ids the server never gave out\<close>

lemma upload_changed_json:
  assumes "upload_schedule d sf ev fs req = (fs', r)"
    and "fs' (path_join d (y @ ''.json'')) \<noteq> fs (path_join d (y @ ''.json''))"
    and "\<not> (save_outcome ev = Completes \<and> (\<exists>n e. dump_outcome ev = RaisesAfter n e))"
  shows "\<exists>js. r = Json js 200 \<and> map_of js ''id'' = Some (JStr (uuid4_hex ev))"
  using assms ics_json_distinct [of d "uuid4_hex ev" y]
  by (cases "save_outcome ev"; cases "dump_outcome ev")
     (auto simp: upload_schedule_def Let_def save_def dump_meta_def
      split: if_splits option.splits)

lemma upload_changed_any:
  assumes "upload_schedule d sf ev fs req = (fs', r)"
    and "fs' p \<noteq> fs p"
    and "(\<forall>n e. save_outcome ev \<noteq> RaisesAfter n e) \<and>
         (save_outcome ev = Completes \<longrightarrow> dump_outcome ev = Completes)"
  shows "\<exists>js. r = Json js 200 \<and> map_of js ''id'' = Some (JStr (uuid4_hex ev))"
  using assms
  by (cases "save_outcome ev"; cases "dump_outcome ev")
     (auto simp: upload_schedule_def Let_def save_def dump_meta_def
      split: if_splits option.splits)

lemma run_files_answered:
  assumes "run_uploads d sf fs0 steps = (fs, rs)" and "fs p \<noteq> None"
    and "\<forall>(ev, req) \<in> set steps. \<forall>fa fb r. upload_schedule d sf ev fa req = (fb, r) \<and> fb p \<noteq> fa p \<longrightarrow>
           (\<exists>js. r = Json js 200 \<and> map_of js ''id'' = Some (JStr (uuid4_hex ev)))"
  shows "fs0 p \<noteq> None \<or>
     (\<exists>js x. Json js 200 \<in> set rs \<and> map_of js ''id'' = Some (JStr x) \<and>
        x \<in> set (map (\<lambda>(ev, req). uuid4_hex ev) steps) \<and>
        (p = path_join d (x @ ''.ics'') \<or> p = path_join d (x @ ''.json'')))"
  using assms
proof (induction steps arbitrary: fs0 fs rs)
  case Nil
  then show ?case by simp
next
  case (Cons s steps)
  obtain ev req where s: "s = (ev, req)" by (cases s)
  obtain fs1 r where u: "upload_schedule d sf ev fs0 req = (fs1, r)"
    by (cases "upload_schedule d sf ev fs0 req")
  obtain fs2 rs2 where t: "run_uploads d sf fs1 steps = (fs2, rs2)"
    by (cases "run_uploads d sf fs1 steps")
  from Cons.prems(1) s u t have e: "fs = fs2" "rs = r # rs2" by simp_all
  from Cons.prems(3) s have c: "\<forall>fa fb r. upload_schedule d sf ev fa req = (fb, r) \<and> fb p \<noteq> fa p \<longrightarrow>
           (\<exists>js. r = Json js 200 \<and> map_of js ''id'' = Some (JStr (uuid4_hex ev)))"
    and cs: "\<forall>(ev, req) \<in> set steps. \<forall>fa fb r. upload_schedule d sf ev fa req = (fb, r) \<and> fb p \<noteq> fa p \<longrightarrow>
           (\<exists>js. r = Json js 200 \<and> map_of js ''id'' = Some (JStr (uuid4_hex ev)))"
    by simp_all
  from Cons.prems(2) e have "fs2 p \<noteq> None" by simp
  from Cons.IH [OF t this cs]
  have IH: "fs1 p \<noteq> None \<or>
     (\<exists>js x. Json js 200 \<in> set rs2 \<and> map_of js ''id'' = Some (JStr x) \<and>
        x \<in> set (map (\<lambda>(ev, req). uuid4_hex ev) steps) \<and>
        (p = path_join d (x @ ''.ics'') \<or> p = path_join d (x @ ''.json'')))" .
  show ?case
  proof (cases "fs1 p \<noteq> None")
    case False
    with IH obtain js x where "Json js 200 \<in> set rs2" "map_of js ''id'' = Some (JStr x)"
      "x \<in> set (map (\<lambda>(ev, req). uuid4_hex ev) steps)"
      "p = path_join d (x @ ''.ics'') \<or> p = path_join d (x @ ''.json'')" by blast
    then have "Json js 200 \<in> set rs \<and> map_of js ''id'' = Some (JStr x) \<and>
        x \<in> set (map (\<lambda>(ev, req). uuid4_hex ev) (s # steps)) \<and>
        (p = path_join d (x @ ''.ics'') \<or> p = path_join d (x @ ''.json''))"
      unfolding e by simp
    then show ?thesis by blast
  next
    case True
    show ?thesis
    proof (cases "fs1 p = fs0 p")
      case same: True
      with True show ?thesis by simp
    next
      case False
      with c u obtain js where
        js: "r = Json js 200" "map_of js ''id'' = Some (JStr (uuid4_hex ev))" by blast
      from upload_changes [OF u False]
      have "p = path_join d (uuid4_hex ev @ ''.ics'') \<or> p = path_join d (uuid4_hex ev @ ''.json'')" .
      with js have "Json js 200 \<in> set rs \<and> map_of js ''id'' = Some (JStr (uuid4_hex ev)) \<and>
        uuid4_hex ev \<in> set (map (\<lambda>(ev, req). uuid4_hex ev) (s # steps)) \<and>
        (p = path_join d (uuid4_hex ev @ ''.ics'') \<or> p = path_join d (uuid4_hex ev @ ''.json''))"
        unfolding e s by simp
      then show ?thesis by blast
    qed
  qed
qed

lemma path_of_other_id:
  assumes "take 1 i \<noteq> ''/''" and "take 1 x \<noteq> ''/''" and "i \<noteq> x"
  shows "path_join d (i @ ''.ics'') \<noteq> path_join d (x @ ''.ics'')"
    and "path_join d (i @ ''.ics'') \<noteq> path_join d (x @ ''.json'')"
    and "path_join d (i @ ''.json'') \<noteq> path_join d (x @ ''.ics'')"
    and "path_join d (i @ ''.json'') \<noteq> path_join d (x @ ''.json'')"
proof -
  show "path_join d (i @ ''.ics'') \<noteq> path_join d (x @ ''.ics'')"
    using ics_path_inj [OF assms(1,2)] assms(3) by blast
  show "path_join d (i @ ''.ics'') \<noteq> path_join d (x @ ''.json'')"
    by (rule ics_json_distinct)
  show "path_join d (i @ ''.json'') \<noteq> path_join d (x @ ''.ics'')"
    using ics_json_distinct [of d x i] by simp
  show "path_join d (i @ ''.json'') \<noteq> path_join d (x @ ''.json'')"
    using json_path_inj [OF assms(1,2)] assms(3) by blast
qed

lemma answered_id_found:
  assumes "Map.empty p \<noteq> (None :: content option) \<or>
     (\<exists>js x. Json js 200 \<in> set rs \<and> map_of js ''id'' = Some (JStr x) \<and>
        x \<in> set (map (\<lambda>(ev, req). uuid4_hex ev) steps) \<and>
        (p = path_join d (x @ ''.ics'') \<or> p = path_join d (x @ ''.json'')))"
    and "list_all (\<lambda>(ev, req). is_uuid_hex (uuid4_hex ev)) steps"
    and "take 1 i \<noteq> ''/''"
    and "p = path_join d (i @ ''.ics'') \<or> p = path_join d (i @ ''.json'')"
  shows "\<exists>js. Json js 200 \<in> set rs \<and> map_of js ''id'' = Some (JStr i)"
proof -
  from assms(1)
  have "\<exists>js x. Json js 200 \<in> set rs \<and> map_of js ''id'' = Some (JStr x) \<and>
        x \<in> set (map (\<lambda>(ev, req). uuid4_hex ev) steps) \<and>
        (p = path_join d (x @ ''.ics'') \<or> p = path_join d (x @ ''.json''))" by simp
  then obtain js x where
    x: "Json js 200 \<in> set rs" "map_of js ''id'' = Some (JStr x)"
       "x \<in> set (map (\<lambda>(ev, req). uuid4_hex ev) steps)"
       "p = path_join d (x @ ''.ics'') \<or> p = path_join d (x @ ''.json'')" by blast
  from x(3) obtain ev req where "(ev, req) \<in> set steps" "x = uuid4_hex ev" by auto
  with assms(2) have "is_uuid_hex x" by (auto simp: list_all_iff)
  then have nx: "take 1 x \<noteq> ''/''" by (rule uuid_no_slash)
  have "i = x"
  proof (rule ccontr)
    assume "i \<noteq> x"
    from path_of_other_id [OF assms(3) nx this, of d] x(4) assms(4) show False by auto
  qed
  with x(1,2) show ?thesis by blast
qed

text \<open>
  C5, as the code has it. Take any store reached from the empty directory by a sequence
  of uploads, and an id that does not start with \<^verbatim>\<open>/\<close> (an id taken from the URL has no
  \<^verbatim>\<open>/\<close> at all). If no upload of the sequence drew that id from \<^verbatim>\<open>uuid4\<close>, then \<^verbatim>\<open>get_ics\<close>
  and \<^verbatim>\<open>get_meta\<close> both answer 404 for it, whatever the outcomes of the writes. For an
  id that no success answer carried: \<^verbatim>\<open>get_meta\<close> answers 404 unless an upload that drew
  this id had its metadata write raise part-way; and \<^verbatim>\<open>get_ics\<close> answers 404 too unless
  an upload that drew this id failed after its payload file was created (its payload write
  raised part-way, or its metadata write did not complete after the payload write did).
\<close>

theorem unknown_id_not_found:
  assumes run: "run_uploads d sf Map.empty steps = (fs, rs)"
    and hex: "list_all (\<lambda>(ev, req). is_uuid_hex (uuid4_hex ev)) steps"
    and i: "take 1 i \<noteq> ''/''"
  shows "(i \<notin> set (map (\<lambda>(ev, req). uuid4_hex ev) steps) \<longrightarrow>
            get_ics d fs i = Abort 404 \<and> get_meta d fs i = Abort 404)
       \<and> (list_all (\<lambda>(ev, req). uuid4_hex ev = i \<longrightarrow>
                       \<not> (save_outcome ev = Completes \<and>
                          (\<exists>n e. dump_outcome ev = RaisesAfter n e))) steps \<and>
          (\<forall>js. Json js 200 \<in> set rs \<longrightarrow> map_of js ''id'' \<noteq> Some (JStr i)) \<longrightarrow>
            get_meta d fs i = Abort 404)
       \<and> (list_all (\<lambda>(ev, req). uuid4_hex ev = i \<longrightarrow>
                       (\<forall>n e. save_outcome ev \<noteq> RaisesAfter n e) \<and>
                       (save_outcome ev = Completes \<longrightarrow> dump_outcome ev = Completes)) steps \<and>
          (\<forall>js. Json js 200 \<in> set rs \<longrightarrow> map_of js ''id'' \<noteq> Some (JStr i)) \<longrightarrow>
            get_ics d fs i = Abort 404 \<and> get_meta d fs i = Abort 404)"
proof -
  have ns: "take 1 x \<noteq> ''/''" if "x \<in> set (map (\<lambda>(ev, req). uuid4_hex ev) steps)" for x
  proof -
    from that obtain ev req where "(ev, req) \<in> set steps" "x = uuid4_hex ev" by auto
    with hex have "is_uuid_hex x" by (auto simp: list_all_iff)
    then show ?thesis by (rule uuid_no_slash)
  qed
  have A: "i \<notin> set (map (\<lambda>(ev, req). uuid4_hex ev) steps) \<longrightarrow>
            get_ics d fs i = Abort 404 \<and> get_meta d fs i = Abort 404"
  proof
    assume ni: "i \<notin> set (map (\<lambda>(ev, req). uuid4_hex ev) steps)"
    have "fs p = None" if "p = path_join d (i @ ''.ics'') \<or> p = path_join d (i @ ''.json'')" for p
    proof (rule ccontr)
      assume "fs p \<noteq> None"
      from run_files_drawn [OF run this]
      have "\<exists>x \<in> set (map (\<lambda>(ev, req). uuid4_hex ev) steps).
           p = path_join d (x @ ''.ics'') \<or> p = path_join d (x @ ''.json'')" by simp
      then obtain x where
        x: "x \<in> set (map (\<lambda>(ev, req). uuid4_hex ev) steps)"
           "p = path_join d (x @ ''.ics'') \<or> p = path_join d (x @ ''.json'')" by blast
      from x(1) ni have "i \<noteq> x" by auto
      from path_of_other_id [OF i ns [OF x(1)] this, of d] x(2) that show False by auto
    qed
    then show "get_ics d fs i = Abort 404 \<and> get_meta d fs i = Abort 404"
      unfolding get_ics_404_iff get_meta_404_iff by simp
  qed
  have other: "fb p = fa p"
    if "(ev, req) \<in> set steps" "uuid4_hex ev \<noteq> i" "upload_schedule d sf ev fa req = (fb, r)"
       "p = path_join d (i @ ''.ics'') \<or> p = path_join d (i @ ''.json'')"
    for ev req fa fb r p
  proof -
    from that(1) have "uuid4_hex ev \<in> set (map (\<lambda>(ev, req). uuid4_hex ev) steps)" by force
    from ns [OF this] have n: "take 1 (uuid4_hex ev) \<noteq> ''/''" .
    from that(2) have ne: "i \<noteq> uuid4_hex ev" by simp
    from upload_other_ids [OF that(3) n i ne] that(4) show ?thesis by auto
  qed
  have B: "list_all (\<lambda>(ev, req). uuid4_hex ev = i \<longrightarrow>
                       \<not> (save_outcome ev = Completes \<and>
                          (\<exists>n e. dump_outcome ev = RaisesAfter n e))) steps \<and>
          (\<forall>js. Json js 200 \<in> set rs \<longrightarrow> map_of js ''id'' \<noteq> Some (JStr i)) \<longrightarrow>
            get_meta d fs i = Abort 404"
  proof
    assume h: "list_all (\<lambda>(ev, req). uuid4_hex ev = i \<longrightarrow>
                       \<not> (save_outcome ev = Completes \<and>
                          (\<exists>n e. dump_outcome ev = RaisesAfter n e))) steps \<and>
          (\<forall>js. Json js 200 \<in> set rs \<longrightarrow> map_of js ''id'' \<noteq> Some (JStr i))"
    show "get_meta d fs i = Abort 404"
    proof (rule ccontr)
      assume "get_meta d fs i \<noteq> Abort 404"
      then have j: "fs (path_join d (i @ ''.json'')) \<noteq> None" by (simp add: get_meta_404_iff)
      have st: "\<forall>(ev, req) \<in> set steps. \<forall>fa fb r.
          upload_schedule d sf ev fa req = (fb, r) \<and>
          fb (path_join d (i @ ''.json'')) \<noteq> fa (path_join d (i @ ''.json'')) \<longrightarrow>
           (\<exists>js. r = Json js 200 \<and> map_of js ''id'' = Some (JStr (uuid4_hex ev)))"
      proof (intro ballI)
        fix s assume s: "s \<in> set steps"
        obtain ev req where sr: "s = (ev, req)" by (cases s)
        have "\<exists>js. r = Json js 200 \<and> map_of js ''id'' = Some (JStr (uuid4_hex ev))"
          if u: "upload_schedule d sf ev fa req = (fb, r)"
            and c: "fb (path_join d (i @ ''.json'')) \<noteq> fa (path_join d (i @ ''.json''))"
          for fa fb r
        proof (cases "uuid4_hex ev = i")
          case True
          with h s sr have o: "\<not> (save_outcome ev = Completes \<and>
              (\<exists>n e. dump_outcome ev = RaisesAfter n e))"
            by (auto simp: list_all_iff)
          from upload_changed_json [OF u c o] show ?thesis .
        next
          case False
          from s sr have "(ev, req) \<in> set steps" by simp
          from other [OF this False u, of "path_join d (i @ ''.json'')"] c show ?thesis by simp
        qed
        then show "case s of (ev, req) \<Rightarrow> \<forall>fa fb r.
          upload_schedule d sf ev fa req = (fb, r) \<and>
          fb (path_join d (i @ ''.json'')) \<noteq> fa (path_join d (i @ ''.json'')) \<longrightarrow>
           (\<exists>js. r = Json js 200 \<and> map_of js ''id'' = Some (JStr (uuid4_hex ev)))"
          unfolding sr by auto
      qed
      from answered_id_found [OF run_files_answered [OF run j st] hex i] h
      show False by blast
    qed
  qed
  have C: "list_all (\<lambda>(ev, req). uuid4_hex ev = i \<longrightarrow>
                       (\<forall>n e. save_outcome ev \<noteq> RaisesAfter n e) \<and>
                       (save_outcome ev = Completes \<longrightarrow> dump_outcome ev = Completes)) steps \<and>
          (\<forall>js. Json js 200 \<in> set rs \<longrightarrow> map_of js ''id'' \<noteq> Some (JStr i)) \<longrightarrow>
            get_ics d fs i = Abort 404 \<and> get_meta d fs i = Abort 404"
  proof
    assume h: "list_all (\<lambda>(ev, req). uuid4_hex ev = i \<longrightarrow>
                       (\<forall>n e. save_outcome ev \<noteq> RaisesAfter n e) \<and>
                       (save_outcome ev = Completes \<longrightarrow> dump_outcome ev = Completes)) steps \<and>
          (\<forall>js. Json js 200 \<in> set rs \<longrightarrow> map_of js ''id'' \<noteq> Some (JStr i))"
    have "fs p = None" if pi: "p = path_join d (i @ ''.ics'') \<or> p = path_join d (i @ ''.json'')" for p
    proof (rule ccontr)
      assume f: "fs p \<noteq> None"
      have st: "\<forall>(ev, req) \<in> set steps. \<forall>fa fb r.
          upload_schedule d sf ev fa req = (fb, r) \<and> fb p \<noteq> fa p \<longrightarrow>
           (\<exists>js. r = Json js 200 \<and> map_of js ''id'' = Some (JStr (uuid4_hex ev)))"
      proof (intro ballI)
        fix s assume s: "s \<in> set steps"
        obtain ev req where sr: "s = (ev, req)" by (cases s)
        have "\<exists>js. r = Json js 200 \<and> map_of js ''id'' = Some (JStr (uuid4_hex ev))"
          if u: "upload_schedule d sf ev fa req = (fb, r)" and c: "fb p \<noteq> fa p"
          for fa fb r
        proof (cases "uuid4_hex ev = i")
          case True
          with h s sr have o: "(\<forall>n e. save_outcome ev \<noteq> RaisesAfter n e) \<and>
              (save_outcome ev = Completes \<longrightarrow> dump_outcome ev = Completes)"
            by (auto simp: list_all_iff)
          from upload_changed_any [OF u c o] show ?thesis .
        next
          case False
          from s sr have "(ev, req) \<in> set steps" by simp
          from other [OF this False u pi] c show ?thesis by simp
        qed
        then show "case s of (ev, req) \<Rightarrow> \<forall>fa fb r.
          upload_schedule d sf ev fa req = (fb, r) \<and> fb p \<noteq> fa p \<longrightarrow>
           (\<exists>js. r = Json js 200 \<and> map_of js ''id'' = Some (JStr (uuid4_hex ev)))"
          unfolding sr by auto
      qed
      from answered_id_found [OF run_files_answered [OF run f st] hex i pi] h
      show False by blast
    qed
    then show "get_ics d fs i = Abort 404 \<and> get_meta d fs i = Abort 404"
      unfolding get_ics_404_iff get_meta_404_iff by simp
  qed
  show ?thesis by (rule conjI [OF A conjI [OF B C]])
qed

theorem unknown_id_not_found_witness:
  "run_uploads ''/tmp/uploads'' id Map.empty
     [(\<lparr>uuid4_hex = ''0123456789abcdef0123456789abcdef'',
        save_outcome = Completes, dump_outcome = Completes\<rparr>,
       \<lparr>content_length = 300,
        files = [(''file'', \<lparr>filename = ''alice.ics'', stream = [66, 69, 71]\<rparr>)],
        form = [(''name'', ''Alice'')], url_root = ''http://h/''\<rparr>),
      (\<lparr>uuid4_hex = ''fedcba9876543210fedcba9876543210'',
        save_outcome = Completes, dump_outcome = Completes\<rparr>,
       \<lparr>content_length = 300,
        files = [(''file'', \<lparr>filename = ''notes.txt'', stream = [1, 2]\<rparr>)],
        form = [(''name'', ''Bob'')], url_root = ''http://h/''\<rparr>)]
   = (Map.empty(''/tmp/uploads/0123456789abcdef0123456789abcdef.ics'' \<mapsto> Blob [66, 69, 71],
         ''/tmp/uploads/0123456789abcdef0123456789abcdef.json'' \<mapsto>
           JsonText [(''id'', JStr ''0123456789abcdef0123456789abcdef''),
             (''name'', JStr ''Alice''), (''orig_name'', JStr ''alice.ics'')]),
      [Json [(''success'', JBool True), (''id'', JStr ''0123456789abcdef0123456789abcdef''),
            (''name'', JStr ''Alice''),
            (''link'', JStr ''http://h/s/0123456789abcdef0123456789abcdef'')] 200,
       Json [(''success'', JBool False),
             (''error'', JStr ''Only .ics files allowed'')] 400])
   \<and> get_ics ''/tmp/uploads''
        (Map.empty(''/tmp/uploads/0123456789abcdef0123456789abcdef.ics'' \<mapsto> Blob [66, 69, 71],
         ''/tmp/uploads/0123456789abcdef0123456789abcdef.json'' \<mapsto>
           JsonText [(''id'', JStr ''0123456789abcdef0123456789abcdef''),
             (''name'', JStr ''Alice''), (''orig_name'', JStr ''alice.ics'')]))
        ''0123456789abcdef0123456789abcdef.json'' = Abort 404
   \<and> get_meta ''/tmp/uploads''
        (Map.empty(''/tmp/uploads/0123456789abcdef0123456789abcdef.ics'' \<mapsto> Blob [66, 69, 71],
         ''/tmp/uploads/0123456789abcdef0123456789abcdef.json'' \<mapsto>
           JsonText [(''id'', JStr ''0123456789abcdef0123456789abcdef''),
             (''name'', JStr ''Alice''), (''orig_name'', JStr ''alice.ics'')]))
        ''fedcba9876543210fedcba9876543210'' = Abort 404
   \<and> get_ics ''/tmp/uploads''
        (Map.empty(''/tmp/uploads/0123456789abcdef0123456789abcdef.ics'' \<mapsto> Blob [66, 69, 71],
         ''/tmp/uploads/0123456789abcdef0123456789abcdef.json'' \<mapsto>
           JsonText [(''id'', JStr ''0123456789abcdef0123456789abcdef''),
             (''name'', JStr ''Alice''), (''orig_name'', JStr ''alice.ics'')]))
        ''fedcba9876543210fedcba9876543210'' = Abort 404"
proof -
  let ?e = "\<lparr>uuid4_hex = ''0123456789abcdef0123456789abcdef'',
        save_outcome = Completes, dump_outcome = Completes\<rparr>"
  let ?e2 = "\<lparr>uuid4_hex = ''fedcba9876543210fedcba9876543210'',
        save_outcome = Completes, dump_outcome = Completes\<rparr>"
  let ?u = "\<lparr>filename = ''alice.ics'', stream = [66, 69, 71 :: byte]\<rparr>"
  let ?u2 = "\<lparr>filename = ''notes.txt'', stream = [1, 2 :: byte]\<rparr>"
  let ?r = "\<lparr>content_length = 300, files = [(''file'', ?u)],
        form = [(''name'', ''Alice'')], url_root = ''http://h/''\<rparr>"
  let ?r2 = "\<lparr>content_length = 300, files = [(''file'', ?u2)],
        form = [(''name'', ''Bob'')], url_root = ''http://h/''\<rparr>"
  let ?fs = "Map.empty(''/tmp/uploads/0123456789abcdef0123456789abcdef.ics'' \<mapsto> Blob [66, 69, 71],
         ''/tmp/uploads/0123456789abcdef0123456789abcdef.json'' \<mapsto>
           JsonText [(''id'', JStr ''0123456789abcdef0123456789abcdef''),
             (''name'', JStr ''Alice''), (''orig_name'', JStr ''alice.ics'')])"
  let ?rs = "[Json [(''success'', JBool True), (''id'', JStr ''0123456789abcdef0123456789abcdef''),
            (''name'', JStr ''Alice''),
            (''link'', JStr ''http://h/s/0123456789abcdef0123456789abcdef'')] 200,
       Json [(''success'', JBool False),
             (''error'', JStr ''Only .ics files allowed'')] 400]"
  have s1: "strip ''Alice'' = ''Alice''" by code_simp
  have l: "rstrip_slash ''http://h/'' = ''http://h''" by code_simp
  have nt: "\<not> allowed_filename ''notes.txt''" using not_allowed_txt [of "''notes''"] by simp
  have u2: "upload_schedule ''/tmp/uploads'' id ?e2 f ?r2 =
      (f, Json [(''success'', JBool False), (''error'', JStr ''Only .ics files allowed'')] 400)" for f
    using upload_not_allowed [of ?r2 ?u2 "''/tmp/uploads''" id ?e2 f] nt
    by (simp add: MAX_BYTES_def)
  have run: "run_uploads ''/tmp/uploads'' id Map.empty [(?e, ?r), (?e2, ?r2)] = (?fs, ?rs)"
    using upload_success [of ?r ?u ?e "''/tmp/uploads''" id Map.empty] allowed_alice s1 l
    by (simp add: u2 MAX_BYTES_def path_join_def)
  have hex: "list_all (\<lambda>(ev, req). is_uuid_hex (uuid4_hex ev)) [(?e, ?r), (?e2, ?r2)]"
    by (simp add: is_uuid_hex_def)
  have i1: "take 1 ''0123456789abcdef0123456789abcdef.json'' \<noteq> ''/''" by simp
  have i2: "take 1 ''fedcba9876543210fedcba9876543210'' \<noteq> ''/''" by simp
  have n1: "''0123456789abcdef0123456789abcdef.json''
      \<notin> set (map (\<lambda>(ev, req). uuid4_hex ev) [(?e, ?r), (?e2, ?r2)])"
    by simp
  have c2: "list_all (\<lambda>(ev, req). uuid4_hex ev = ''fedcba9876543210fedcba9876543210'' \<longrightarrow>
                       \<not> (save_outcome ev = Completes \<and>
                          (\<exists>n e. dump_outcome ev = RaisesAfter n e))) [(?e, ?r), (?e2, ?r2)] \<and>
          (\<forall>js. Json js 200 \<in> set ?rs \<longrightarrow>
             map_of js ''id'' \<noteq> Some (JStr ''fedcba9876543210fedcba9876543210''))"
    by simp
  have c3: "list_all (\<lambda>(ev, req). uuid4_hex ev = ''fedcba9876543210fedcba9876543210'' \<longrightarrow>
                       (\<forall>n e. save_outcome ev \<noteq> RaisesAfter n e) \<and>
                       (save_outcome ev = Completes \<longrightarrow> dump_outcome ev = Completes))
                [(?e, ?r), (?e2, ?r2)] \<and>
          (\<forall>js. Json js 200 \<in> set ?rs \<longrightarrow>
             map_of js ''id'' \<noteq> Some (JStr ''fedcba9876543210fedcba9876543210''))"
    by simp
  from unknown_id_not_found [OF run hex i1] n1
  have A: "get_ics ''/tmp/uploads'' ?fs ''0123456789abcdef0123456789abcdef.json'' = Abort 404" by blast
  from unknown_id_not_found [OF run hex i2] c2
  have B: "get_meta ''/tmp/uploads'' ?fs ''fedcba9876543210fedcba9876543210'' = Abort 404" by blast
  from unknown_id_not_found [OF run hex i2] c3
  have C: "get_ics ''/tmp/uploads'' ?fs ''fedcba9876543210fedcba9876543210'' = Abort 404" by blast
  show ?thesis by (rule conjI [OF run conjI [OF A conjI [OF B C]]])
qed

text \<open>
  C5 as stated fails in three ways, each for an id that was returned to nobody. After an
  upload whose metadata write raised at \<^verbatim>\<open>open\<close>, the payload file is there and
  \<^verbatim>\<open>get_ics\<close> serves it (\<^verbatim>\<open>get_meta\<close> does answer 404 there). After an upload whose
  metadata write raised part-way, the metadata file is there too, and \<^verbatim>\<open>get_meta\<close> on that
  id is \<^verbatim>\<open>json.load\<close> of a cut file, not a 404. After an upload whose payload write raised
  part-way, \<^verbatim>\<open>get_ics\<close> serves the bytes that were written.
\<close>

theorem orphan_payload_served:
  "snd (run_uploads ''/tmp/uploads'' id (map_of [])
     [(\<lparr>uuid4_hex = ''0123456789abcdef0123456789abcdef'',
        save_outcome = Completes,
        dump_outcome = RaisesAtOpen ''[Errno 28] No space left on device''\<rparr>,
       \<lparr>content_length = 300,
        files = [(''file'', \<lparr>filename = ''alice.ics'', stream = [66, 69, 71]\<rparr>)],
        form = [(''name'', ''Alice'')], url_root = ''http://h/''\<rparr>)])
   = [Unhandled ''[Errno 28] No space left on device'']
   \<and> get_ics ''/tmp/uploads''
       (fst (run_uploads ''/tmp/uploads'' id (map_of [])
     [(\<lparr>uuid4_hex = ''0123456789abcdef0123456789abcdef'',
        save_outcome = Completes,
        dump_outcome = RaisesAtOpen ''[Errno 28] No space left on device''\<rparr>,
       \<lparr>content_length = 300,
        files = [(''file'', \<lparr>filename = ''alice.ics'', stream = [66, 69, 71]\<rparr>)],
        form = [(''name'', ''Alice'')], url_root = ''http://h/''\<rparr>)]))
       ''0123456789abcdef0123456789abcdef''
   = SendFile (Blob [66, 69, 71]) ''text/calendar''
   \<and> get_meta ''/tmp/uploads''
       (fst (run_uploads ''/tmp/uploads'' id (map_of [])
     [(\<lparr>uuid4_hex = ''0123456789abcdef0123456789abcdef'',
        save_outcome = Completes,
        dump_outcome = RaisesAtOpen ''[Errno 28] No space left on device''\<rparr>,
       \<lparr>content_length = 300,
        files = [(''file'', \<lparr>filename = ''alice.ics'', stream = [66, 69, 71]\<rparr>)],
        form = [(''name'', ''Alice'')], url_root = ''http://h/''\<rparr>)]))
       ''0123456789abcdef0123456789abcdef''
   = Abort 404
   \<and> snd (run_uploads ''/tmp/uploads'' id (map_of [])
     [(\<lparr>uuid4_hex = ''0123456789abcdef0123456789abcdef'',
        save_outcome = Completes,
        dump_outcome = RaisesAfter 10 ''[Errno 28] No space left on device''\<rparr>,
       \<lparr>content_length = 300,
        files = [(''file'', \<lparr>filename = ''alice.ics'', stream = [66, 69, 71]\<rparr>)],
        form = [(''name'', ''Alice'')], url_root = ''http://h/''\<rparr>)])
   = [Unhandled ''[Errno 28] No space left on device'']
   \<and> get_meta ''/tmp/uploads''
       (fst (run_uploads ''/tmp/uploads'' id (map_of [])
     [(\<lparr>uuid4_hex = ''0123456789abcdef0123456789abcdef'',
        save_outcome = Completes,
        dump_outcome = RaisesAfter 10 ''[Errno 28] No space left on device''\<rparr>,
       \<lparr>content_length = 300,
        files = [(''file'', \<lparr>filename = ''alice.ics'', stream = [66, 69, 71]\<rparr>)],
        form = [(''name'', ''Alice'')], url_root = ''http://h/''\<rparr>)]))
       ''0123456789abcdef0123456789abcdef''
   = JsonLoadOf (JsonCut [(''id'', JStr ''0123456789abcdef0123456789abcdef''),
                          (''name'', JStr ''Alice''), (''orig_name'', JStr ''alice.ics'')])
   \<and> snd (run_uploads ''/tmp/uploads'' id (map_of [])
     [(\<lparr>uuid4_hex = ''0123456789abcdef0123456789abcdef'',
        save_outcome = RaisesAfter 2 ''[Errno 28] No space left on device'',
        dump_outcome = Completes\<rparr>,
       \<lparr>content_length = 300,
        files = [(''file'', \<lparr>filename = ''alice.ics'', stream = [66, 69, 71]\<rparr>)],
        form = [(''name'', ''Alice'')], url_root = ''http://h/''\<rparr>)])
   = [Json [(''success'', JBool False),
            (''error'', JStr ''Failed to save: [Errno 28] No space left on device'')] 500]
   \<and> get_ics ''/tmp/uploads''
       (fst (run_uploads ''/tmp/uploads'' id (map_of [])
     [(\<lparr>uuid4_hex = ''0123456789abcdef0123456789abcdef'',
        save_outcome = RaisesAfter 2 ''[Errno 28] No space left on device'',
        dump_outcome = Completes\<rparr>,
       \<lparr>content_length = 300,
        files = [(''file'', \<lparr>filename = ''alice.ics'', stream = [66, 69, 71]\<rparr>)],
        form = [(''name'', ''Alice'')], url_root = ''http://h/''\<rparr>)]))
       ''0123456789abcdef0123456789abcdef''
   = SendFile (Blob [66, 69]) ''text/calendar''"
proof -
  have s1: "strip ''Alice'' = ''Alice''" by code_simp
  show ?thesis
    using allowed_alice s1
    by (simp add: upload_schedule_def Let_def MAX_BYTES_def save_def dump_meta_def path_join_def
        get_ics_def get_meta_def)
qed

end
